theory Spec2Isabelle
  imports Complex_Main
begin

section \<open>Errors and exceptions\<close>

text \<open>
  A JavaScript exception is a value \<open>Error msg\<close>; a computation that may throw has the type
  \<open>error + 'a\<close>, with \<open>Inl\<close> for the thrown error. \<open>try_catch\<close> is the statement
  \<^verbatim>\<open>try { body } catch (error) { handler(error) }\<close>.
\<close>

datatype error = Error (error_message: string)

definition try_catch :: "error + 'a \<Rightarrow> (error \<Rightarrow> error + 'a) \<Rightarrow> error + 'a" where
  "try_catch body handler = (case body of Inl e \<Rightarrow> handler e | Inr v \<Rightarrow> Inr v)"

definition bind_e :: "error + 'a \<Rightarrow> ('a \<Rightarrow> error + 'b) \<Rightarrow> error + 'b" where
  "bind_e m f = (case m of Inl e \<Rightarrow> Inl e | Inr v \<Rightarrow> f v)"

section \<open>The document store (lib/database)\<close>

text \<open>
  The rows of the tables \<open>websites\<close> and \<open>documents\<close>, with the columns the modelled
  operations read or write; \<open>ws_id\<close> is the column \<open>id\<close> of a website. Numbers are
  JavaScript doubles and PostgreSQL floats; they are idealised as reals (no NaN, no
  rounding).
\<close>

type_synonym vector = "real list"

datatype crawl_status = Pending | Crawling | Completed | Failed

record website =
  ws_id :: string
  domain :: string
  api_key :: string
  last_crawled_at :: "nat option"
  crawl_status :: crawl_status
  is_active :: bool

datatype meta_value = MStr string | MNum nat

record document =
  website_id :: string
  content :: string
  url :: string
  title :: "string option"
  embedding :: "vector option"
  metadata :: "(string \<times> meta_value) list"

text \<open>A row of the similarity query: \<^verbatim>\<open>SELECT *, (1 - (embedding <=> $2)) as similarity\<close>.\<close>

record scored_document = document +
  similarity :: real

text \<open>
  The database: its two tables, the clock behind \<^verbatim>\<open>NOW()\<close>, the fault that makes
  \<^verbatim>\<open>pool.connect()\<close> or \<^verbatim>\<open>client.query\<close> throw (\<open>None\<close> when the server answers),
  the rows an insert rejects, and the cosine distance operator \<^verbatim>\<open><=>\<close> of pgvector. The
  operator is not code of this repository and is a parameter.
\<close>

record database =
  websites_tbl :: "website list"
  documents_tbl :: "document list"
  db_now :: nat
  fault :: "error option"
  rejects :: "document \<Rightarrow> error option"
  cosine_distance :: "vector \<Rightarrow> vector \<Rightarrow> real"

text \<open>\<^verbatim>\<open>SELECT * FROM websites WHERE api_key = $1 AND is_active = true\<close>, first row or null.\<close>

definition findByApiKey :: "database \<Rightarrow> string \<Rightarrow> error + website option" where
  "findByApiKey db apiKey =
     (case fault db of
        Some e \<Rightarrow> Inl e
      | None \<Rightarrow>
          Inr (case filter (\<lambda>w. api_key w = apiKey \<and> is_active w) (websites_tbl db) of
                 [] \<Rightarrow> None
               | w # ws \<Rightarrow> Some w))"

text \<open>\<^verbatim>\<open>UPDATE websites SET crawl_status = $1, last_crawled_at = NOW() WHERE id = $2\<close>.\<close>

definition updateCrawlStatus :: "database \<Rightarrow> string \<Rightarrow> crawl_status \<Rightarrow> error + database" where
  "updateCrawlStatus db i status =
     (case fault db of
        Some e \<Rightarrow> Inl e
      | None \<Rightarrow>
          Inr (db\<lparr>websites_tbl :=
                 map (\<lambda>w. if ws_id w = i
                          then w\<lparr>crawl_status := status, last_crawled_at := Some (db_now db)\<rparr>
                          else w)
                   (websites_tbl db)\<rparr>))"

text \<open>\<^verbatim>\<open>DELETE FROM documents WHERE website_id = $1\<close>.\<close>

definition deleteByWebsiteId :: "database \<Rightarrow> string \<Rightarrow> error + database" where
  "deleteByWebsiteId db websiteId =
     (case fault db of
        Some e \<Rightarrow> Inl e
      | None \<Rightarrow>
          Inr (db\<lparr>documents_tbl := filter (\<lambda>d. website_id d \<noteq> websiteId) (documents_tbl db)\<rparr>))"

text \<open>
  \<^verbatim>\<open>INSERT INTO documents ... RETURNING *\<close>. The insert throws when the database is
  unreachable or when the table rejects the row (\<open>rejects\<close>: the column constraints of the
  schema, a parameter).
\<close>

definition documents_create :: "database \<Rightarrow> document \<Rightarrow> error + database" where
  "documents_create db d =
     (case fault db of
        Some e \<Rightarrow> Inl e
      | None \<Rightarrow>
          (case rejects db d of
             Some e \<Rightarrow> Inl e
           | None \<Rightarrow> Inr (db\<lparr>documents_tbl := documents_tbl db @ [d]\<rparr>)))"

text \<open>
  One row of \<^verbatim>\<open>WHERE website_id = $1 AND (1 - (embedding <=> $2)) > $3\<close>: a row whose
  embedding is NULL has a NULL similarity and is not selected. The selected row is paired
  with its distance, the key of \<^verbatim>\<open>ORDER BY embedding <=> $2\<close>.
\<close>

definition select_row ::
  "database \<Rightarrow> string \<Rightarrow> vector \<Rightarrow> real \<Rightarrow> document \<Rightarrow> (real \<times> scored_document) option" where
  "select_row db websiteId emb threshold d =
     (case embedding d of
        None \<Rightarrow> None
      | Some e \<Rightarrow>
          (let dist = cosine_distance db e emb in
           if website_id d = websiteId \<and> 1 - dist > threshold
           then Some (dist, document.extend d \<lparr>similarity = 1 - dist\<rparr>)
           else None))"

text \<open>
  \<^verbatim>\<open>db.documents.similaritySearch(websiteId, embedding, limit, threshold)\<close>; its only
  caller passes all four arguments. The query throws when the database is unreachable,
  and PostgreSQL rejects a negative \<^verbatim>\<open>LIMIT\<close>. Rows at the same distance keep their
  table order.
\<close>

definition similaritySearch ::
  "database \<Rightarrow> string \<Rightarrow> vector \<Rightarrow> int \<Rightarrow> real \<Rightarrow> error + scored_document list" where
  "similaritySearch db websiteId emb limit threshold =
     (case fault db of
        Some e \<Rightarrow> Inl e
      | None \<Rightarrow>
          if limit < 0 then Inl (Error ''LIMIT must not be negative'')
          else Inr (take (nat limit)
                 (map snd (sort_key fst
                    (List.map_filter (select_row db websiteId emb threshold) (documents_tbl db))))))"

section \<open>Strings\<close>

text \<open>The JavaScript string operations the code uses, on strings as lists of characters.\<close>

fun string_of_nat :: "nat \<Rightarrow> string" where
  "string_of_nat n =
     (if n < 10 then [''0123456789'' ! n]
      else string_of_nat (n div 10) @ [''0123456789'' ! (n mod 10)])"

declare string_of_nat.simps [simp del]

fun join :: "string \<Rightarrow> string list \<Rightarrow> string" where
  "join sep [] = []"
| "join sep [x] = x"
| "join sep (x # y # ys) = x @ sep @ join sep (y # ys)"

text \<open>\<^verbatim>\<open>[...new Set(xs)]\<close>: the first occurrence of every element, in order.\<close>

fun unique_acc :: "'a list \<Rightarrow> 'a list \<Rightarrow> 'a list" where
  "unique_acc seen [] = seen"
| "unique_acc seen (x # xs) = unique_acc (if x \<in> set seen then seen else seen @ [x]) xs"

definition unique :: "'a list \<Rightarrow> 'a list" where
  "unique xs = unique_acc [] xs"

text \<open>\<^verbatim>\<open>xs.slice(-n)\<close>: the last \<open>n\<close> elements.\<close>

definition slice_last :: "nat \<Rightarrow> 'a list \<Rightarrow> 'a list" where
  "slice_last n xs = drop (length xs - n) xs"

section \<open>The providers and the retriever (lib/rag)\<close>

text \<open>
  The Gemini client is not code of this repository: both models are parameters. A call
  throws (\<open>Inl\<close>) or returns. The embedding result may lack \<^verbatim>\<open>embedding\<close>, in which case
  reading \<^verbatim>\<open>result.embedding.values\<close> throws, or lack \<^verbatim>\<open>values\<close>. The completion result
  has a \<^verbatim>\<open>response.text()\<close> that may throw as well. The outcome of a call is taken to depend
  on its argument only.
\<close>

datatype embed_response = NoEmbedding | NoValues | Values vector

record generate_result =
  response_text :: "error + string"

record gemini =
  embedContent :: "string \<Rightarrow> error + embed_response"
  generateContent :: "string \<Rightarrow> error + generate_result"

text \<open>\<^verbatim>\<open>result.embedding.values\<close>; \<open>None\<close> is \<^verbatim>\<open>undefined\<close>.\<close>

fun embedding_values :: "embed_response \<Rightarrow> error + vector option" where
  "embedding_values NoEmbedding =
     Inl (Error ''Cannot read properties of undefined (reading 'values')'')"
| "embedding_values NoValues = Inr None"
| "embedding_values (Values v) = Inr (Some v)"

record rag_context =
  documents :: "scored_document list"
  totalSources :: nat
  similarity_threshold :: real

text \<open>\<open>RAGResponse\<close>; \<open>rcontext\<close> is its key \<open>context\<close>.\<close>

record rag_response =
  answer :: string
  rcontext :: rag_context
  sources :: "string list"

text \<open>The options object; \<open>None\<close> is an absent key, which takes the default.\<close>

record retrieve_options =
  limit :: "int option"
  threshold :: "real option"

record rag_options = retrieve_options +
  includeContext :: "bool option"

definition retrieveRelevantDocuments ::
  "gemini \<Rightarrow> database \<Rightarrow> string \<Rightarrow> string \<Rightarrow> 'a retrieve_options_scheme
     \<Rightarrow> error + rag_context" where
  "retrieveRelevantDocuments ai db query websiteId options =
     (let limit' = (case limit options of None \<Rightarrow> 5 | Some l \<Rightarrow> l);
          threshold' = (case threshold options of None \<Rightarrow> 0.7 | Some t \<Rightarrow> t)
      in try_catch
           (bind_e (embedContent ai query) (\<lambda>result.
            bind_e (embedding_values result) (\<lambda>queryEmbedding.
              case queryEmbedding of
                None \<Rightarrow> Inl (Error ''Failed to generate query embedding'')
              | Some qe \<Rightarrow>
                  if length qe = 0 then Inl (Error ''Failed to generate query embedding'')
                  else bind_e (similaritySearch db websiteId qe limit' threshold') (\<lambda>docs.
                    Inr \<lparr>documents = docs, totalSources = length docs,
                         similarity_threshold = threshold'\<rparr>))))
           (\<lambda>error.
              Inr \<lparr>documents = [], totalSources = 0, similarity_threshold = threshold'\<rparr>))"

subsection \<open>The response composer\<close>

datatype role = User | Assistant

datatype chat_message = ChatMessage (role: role) (msg_content: string)

definition contextText :: "scored_document list \<Rightarrow> string" where
  "contextText docs =
     join ''\<newline>\<newline>''
       (map (\<lambda>(index, doc).
              ''Source '' @ string_of_nat (index + 1) @ '' ('' @ url doc @ ''):\<newline>'' @ content doc)
            (enumerate 0 docs))"

definition historyText :: "chat_message list \<Rightarrow> string" where
  "historyText chatHistory =
     join ''\<newline>''
       (map (\<lambda>msg. (if role msg = User then ''User'' else ''Assistant'') @ '': '' @ msg_content msg)
            (slice_last 10 chatHistory))"

definition prompt :: "string \<Rightarrow> string \<Rightarrow> string \<Rightarrow> string" where
  "prompt ctx hist query =
     ''You are a helpful AI assistant for this website. Use the provided context to answer the user's question accurately and helpfully.\<newline>\<newline>Context from the website:\<newline>''
     @ ctx @ ''\<newline>\<newline>''
     @ (if hist \<noteq> [] then ''Previous conversation:\<newline>'' @ hist @ ''\<newline>'' else [])
     @ ''\<newline>\<newline>Current question: '' @ query
     @ ''\<newline>\<newline>Instructions:\<newline>- Answer based primarily on the provided context\<newline>- If the context doesn't contain relevant information, politely say so\<newline>- Be conversational and helpful\<newline>- Keep responses concise but informative\<newline>- Reference specific sources when relevant\<newline>\<newline>Answer:''"

definition empty_context :: rag_context where
  "empty_context = \<lparr>documents = [], totalSources = 0, similarity_threshold = 0\<rparr>"

definition fallback_answer :: string where
  "fallback_answer =
     ''I'm sorr'' @ ''y, I encountered an error while processing your question. Please try again.''"

definition generateRAGResponse ::
  "gemini \<Rightarrow> database \<Rightarrow> string \<Rightarrow> string \<Rightarrow> chat_message list \<Rightarrow> rag_options
     \<Rightarrow> error + rag_response" where
  "generateRAGResponse ai db query websiteId chatHistory options =
     (let includeContext' = (case includeContext options of None \<Rightarrow> True | Some b \<Rightarrow> b)
      in try_catch
           (bind_e (retrieveRelevantDocuments ai db query websiteId options) (\<lambda>ctx.
            bind_e (generateContent ai
                      (prompt (contextText (documents ctx)) (historyText chatHistory) query))
              (\<lambda>result.
            bind_e (response_text result) (\<lambda>answer'.
              Inr \<lparr>answer = answer',
                   rcontext = (if includeContext' then ctx else empty_context),
                   sources = unique (map url (documents ctx))\<rparr>))))
           (\<lambda>error.
              Inr \<lparr>answer = fallback_answer, rcontext = empty_context, sources = []\<rparr>))"

subsection \<open>Embeddings for ingestion\<close>

definition createEmbedding :: "gemini \<Rightarrow> string \<Rightarrow> error + vector" where
  "createEmbedding ai text =
     try_catch
       (bind_e (embedContent ai text) (\<lambda>result.
        bind_e (embedding_values result) (\<lambda>vals.
          Inr (case vals of None \<Rightarrow> [] | Some v \<Rightarrow> v))))
       (\<lambda>error. Inr [])"

text \<open>\<^verbatim>\<open>Promise.all\<close>: all the results in order, or the first rejection.\<close>

fun promise_all :: "(error + 'a) list \<Rightarrow> error + 'a list" where
  "promise_all [] = Inr []"
| "promise_all (p # ps) =
     (case p of
        Inl e \<Rightarrow> Inl e
      | Inr v \<Rightarrow> (case promise_all ps of Inl e \<Rightarrow> Inl e | Inr vs \<Rightarrow> Inr (v # vs)))"

text \<open>
  What \<open>createEmbeddingsBatch\<close> does besides computing its result: the sub-batches it sends
  to the provider and the pauses (in milliseconds) it takes, in order.
\<close>

datatype batch_event = EmbedBatch "string list" | Delay nat

definition batchSize :: nat where
  "batchSize = 5"

function batch_loop ::
  "gemini \<Rightarrow> string list \<Rightarrow> nat \<Rightarrow> vector list \<times> batch_event list
     \<Rightarrow> error + vector list \<times> batch_event list" where
  "batch_loop ai texts i (embeddings, trace) =
     (if i < length texts then
        (let batch = take batchSize (drop i texts)
         in case promise_all (map (createEmbedding ai) batch) of
              Inl e \<Rightarrow> Inl e
            | Inr batchResults \<Rightarrow>
                batch_loop ai texts (i + batchSize)
                  (embeddings @ batchResults,
                   trace @ [EmbedBatch batch]
                     @ (if i + batchSize < length texts then [Delay 100] else [])))
      else Inr (embeddings, trace))"
  by pat_completeness auto
termination
  by (relation "measure (\<lambda>(ai, texts, i, acc). length texts - i)") (auto simp: batchSize_def)

declare batch_loop.simps [simp del]

definition createEmbeddingsBatch ::
  "gemini \<Rightarrow> string list \<Rightarrow> error + vector list \<times> batch_event list" where
  "createEmbeddingsBatch ai texts = batch_loop ai texts 0 ([], [])"

section \<open>The crawler (lib/crawler)\<close>

subsection \<open>Options\<close>

text \<open>
  \<open>CrawlOptions\<close> as a caller passes it (\<open>None\<close> is an absent key), and the options of a
  crawler after its constructor has laid the caller's keys over the defaults. Page and
  depth caps are counts.
\<close>

record crawl_options =
  opt_maxPages :: "nat option"
  opt_maxDepth :: "nat option"
  opt_respectRobotsTxt :: "bool option"
  opt_delayBetweenRequests :: "nat option"
  opt_excludePatterns :: "string list option"
  opt_includePatterns :: "string list option"

record crawler_options =
  maxPages :: nat
  maxDepth :: nat
  respectRobotsTxt :: bool
  delayBetweenRequests :: nat
  excludePatterns :: "string list"
  includePatterns :: "string list"

definition default_options :: crawler_options where
  "default_options =
     \<lparr>maxPages = 50, maxDepth = 3, respectRobotsTxt = True, delayBetweenRequests = 1000,
      excludePatterns = [''/admin'', ''/wp-admin'', ''/login'', ''/checkout'', ''/cart'',
        ''.pdf'', ''.jpg'', ''.png'', ''.gif'', ''.zip'', ''.exe''],
      includePatterns = []\<rparr>"

definition or_default :: "'a option \<Rightarrow> 'a \<Rightarrow> 'a" where
  "or_default v d = (case v of None \<Rightarrow> d | Some x \<Rightarrow> x)"

definition merge_options :: "crawl_options \<Rightarrow> crawler_options" where
  "merge_options options =
     \<lparr>maxPages = or_default (opt_maxPages options) (maxPages default_options),
      maxDepth = or_default (opt_maxDepth options) (maxDepth default_options),
      respectRobotsTxt =
        or_default (opt_respectRobotsTxt options) (respectRobotsTxt default_options),
      delayBetweenRequests =
        or_default (opt_delayBetweenRequests options) (delayBetweenRequests default_options),
      excludePatterns =
        or_default (opt_excludePatterns options) (excludePatterns default_options),
      includePatterns =
        or_default (opt_includePatterns options) (includePatterns default_options)\<rparr>"

subsection \<open>URL tests\<close>

text \<open>
  Characters are the code units below 256. \<open>toLowerCase\<close> maps the capital letters among
  them to their small letters; \<open>is_space\<close> below is the class \<^verbatim>\<open>\s\<close> among them.
\<close>

definition lower_char :: "char \<Rightarrow> char" where
  "lower_char c =
     (let n = (of_char c :: nat)
      in if (65 \<le> n \<and> n \<le> 90) \<or> (192 \<le> n \<and> n \<le> 222 \<and> n \<noteq> 215) then char_of (n + 32)
         else c)"

definition toLowerCase :: "string \<Rightarrow> string" where
  "toLowerCase s = map lower_char s"

definition startsWith :: "string \<Rightarrow> string \<Rightarrow> bool" where
  "startsWith s p = (take (length p) s = p)"

fun str_includes :: "string \<Rightarrow> string \<Rightarrow> bool" where
  "str_includes [] p = (p = [])"
| "str_includes (c # cs) p = (startsWith (c # cs) p \<or> str_includes cs p)"

definition shouldCrawlUrl :: "crawler_options \<Rightarrow> string \<Rightarrow> bool" where
  "shouldCrawlUrl opts u =
     (if \<exists>pattern \<in> set (excludePatterns opts). str_includes (toLowerCase u) (toLowerCase pattern)
      then False
      else if length (includePatterns opts) > 0
      then (\<exists>pattern \<in> set (includePatterns opts).
              str_includes (toLowerCase u) (toLowerCase pattern))
      else True)"

subsection \<open>The browser and the text splitter\<close>

text \<open>
  Puppeteer, Cheerio, the \<open>URL\<close> class and the text splitter are libraries: what they
  return is a parameter. A page that loads has a title, a text for each selector that
  matches (after the non-content elements are removed), and the \<open>href\<close>s of its anchors in
  document order; reading the anchors may throw.
\<close>

record page =
  page_title :: string
  select_text :: "string \<Rightarrow> string option"
  anchors :: "error + string list"

record web =
  launch :: "error option"
  goto :: "string \<Rightarrow> error + page"
  hostname :: "string \<Rightarrow> string option"
  splitText :: "string \<Rightarrow> error + string list"
  now_iso :: string

definition contentSelectors :: "string list" where
  "contentSelectors =
     [''main'', ''.content'', ''.main-content'', ''article'', ''.post'', ''.entry-content'',
      ''body'']"

text \<open>The text of the first selector that matches, else the empty string.\<close>

fun first_match :: "(string \<Rightarrow> string option) \<Rightarrow> string list \<Rightarrow> string" where
  "first_match sel [] = []"
| "first_match sel (s # ss) = (case sel s of Some t \<Rightarrow> t | None \<Rightarrow> first_match sel ss)"

definition extract_text :: "page \<Rightarrow> string" where
  "extract_text p =
     (let textContent = first_match (select_text p) contentSelectors
      in if textContent = [] then or_default (select_text p ''body'') [] else textContent)"

definition is_space :: "char \<Rightarrow> bool" where
  "is_space c = ((of_char c :: nat) \<in> {9, 10, 11, 12, 13, 32, 160})"

text \<open>\<^verbatim>\<open>s.replace(/X+/g, r)\<close>: every maximal run of characters of class \<open>X\<close> becomes \<open>r\<close>.\<close>

function replace_runs :: "(char \<Rightarrow> bool) \<Rightarrow> char \<Rightarrow> string \<Rightarrow> string" where
  "replace_runs X r [] = []"
| "replace_runs X r (c # cs) =
     (if X c then r # replace_runs X r (dropWhile X cs) else c # replace_runs X r cs)"
  by pat_completeness auto
termination
  by (relation "measure (\<lambda>(X, r, s). length s)")
     (auto simp: length_dropWhile_le le_imp_less_Suc)

definition trim :: "string \<Rightarrow> string" where
  "trim s = rev (dropWhile is_space (rev (dropWhile is_space s)))"

definition clean_text :: "string \<Rightarrow> string" where
  "clean_text textContent =
     trim (replace_runs (\<lambda>c. c = CHR 0x0A) (CHR 0x0A)
             (replace_runs is_space (CHR '' '') textContent))"

definition isInternalLink :: "web \<Rightarrow> website \<Rightarrow> string \<Rightarrow> bool" where
  "isInternalLink w site u =
     (case hostname w u of
        None \<Rightarrow> False
      | Some urlHost \<Rightarrow>
          (case hostname w (domain site) of
             None \<Rightarrow> False
           | Some domainHost \<Rightarrow> urlHost = domainHost))"

text \<open>The links of a page that the crawler queues: lines 210 to 219 of the source.\<close>

definition internalLinks :: "web \<Rightarrow> website \<Rightarrow> string list \<Rightarrow> string list" where
  "internalLinks w site hrefs =
     take 10
       (filter (isInternalLink w site)
          (filter (\<lambda>href. href \<noteq> [] \<and> \<not> startsWith href ''mailto:'' \<and> \<not> startsWith href ''tel:'')
             hrefs))"

subsection \<open>The crawler's state and the traversal\<close>

text \<open>
  The fields a crawl mutates: \<open>visitedUrls\<close> (a JavaScript \<open>Set\<close>, kept in insertion
  order), \<open>errors\<close>, and the array \<open>documentsToCreate\<close> that \<open>crawl\<close> hands to \<open>crawlUrl\<close>.
\<close>

record crawler =
  visitedUrls :: "string list"
  errors :: "string list"
  documentsToCreate :: "document list"

definition new_crawler :: crawler where
  "new_crawler = \<lparr>visitedUrls = [], errors = [], documentsToCreate = []\<rparr>"

definition pending_document ::
  "web \<Rightarrow> website \<Rightarrow> string \<Rightarrow> string \<Rightarrow> nat \<Rightarrow> nat \<times> string \<Rightarrow> document" where
  "pending_document w site u ttl n ic =
     \<lparr>website_id = ws_id site, content = snd ic, url = u, title = Some ttl,
      embedding = None,
      metadata =
        [(''source_domain'', MStr (domain site)),
         (''chunk_index'', MNum (fst ic)),
         (''total_chunks'', MNum n),
         (''crawl_timestamp'', MStr (now_iso w)),
         (''page_title'', MStr ttl)]\<rparr>"

text \<open>
  Lines 143 to 206: the text of the page is extracted and cleaned; a text of more than 100
  characters is split, and every chunk is pushed as a pending document.
\<close>

definition page_documents ::
  "web \<Rightarrow> website \<Rightarrow> string \<Rightarrow> page \<Rightarrow> crawler \<Rightarrow> error + crawler" where
  "page_documents w site u p c =
     (let textContent = clean_text (extract_text p)
      in if length textContent > 100
         then bind_e (splitText w textContent) (\<lambda>chunks.
                Inr (c\<lparr>documentsToCreate := documentsToCreate c @
                      map (pending_document w site u (page_title p) (length chunks))
                        (enumerate 0 chunks)\<rparr>))
         else Inr c)"

definition record_error :: "string \<Rightarrow> error \<Rightarrow> crawler \<Rightarrow> crawler" where
  "record_error u e c =
     c\<lparr>errors := errors c @ [''Error crawling '' @ u @ '': '' @ error_message e]\<rparr>"

text \<open>
  \<open>crawlUrl\<close>, with the \<^verbatim>\<open>for (const link of internalLinks)\<close> loop as \<open>crawlLinks\<close>. The pause
  before each link takes time and changes nothing else. Every exception of the body is
  caught and recorded, so the function returns the crawler's new state.
\<close>

function crawlUrl ::
    "web \<Rightarrow> website \<Rightarrow> crawler_options \<Rightarrow> string \<Rightarrow> nat \<Rightarrow> crawler \<Rightarrow> crawler"
  and crawlLinks ::
    "web \<Rightarrow> website \<Rightarrow> crawler_options \<Rightarrow> string list \<Rightarrow> nat \<Rightarrow> crawler \<Rightarrow> crawler"
where
  "crawlUrl w site opts u depth c =
     (if depth > maxDepth opts \<or> length (visitedUrls c) \<ge> maxPages opts
         \<or> u \<in> set (visitedUrls c)
      then c
      else if \<not> shouldCrawlUrl opts u then c
      else
        (let c1 = c\<lparr>visitedUrls := visitedUrls c @ [u]\<rparr>
         in case goto w u of
              Inl e \<Rightarrow> record_error u e c1
            | Inr p \<Rightarrow>
                (case page_documents w site u p c1 of
                   Inl e \<Rightarrow> record_error u e c1
                 | Inr c2 \<Rightarrow>
                     if depth < maxDepth opts
                     then (case anchors p of
                             Inl e \<Rightarrow> record_error u e c2
                           | Inr hrefs \<Rightarrow>
                               crawlLinks w site opts (internalLinks w site hrefs)
                                 (depth + 1) c2)
                     else c2)))"
| "crawlLinks w site opts [] depth c = c"
| "crawlLinks w site opts (link # links) depth c =
     crawlLinks w site opts links depth (crawlUrl w site opts link depth c)"
  by pat_completeness auto
termination
  by (relation "inv_image (less_than <*lex*> less_than)
        (\<lambda>x. case x of
           Inl (w, site, opts, u, depth, c) \<Rightarrow> (maxDepth opts + 1 - depth, 0)
         | Inr (w, site, opts, links, depth, c) \<Rightarrow> (maxDepth opts + 1 - depth, length links + 1))")
     auto

declare crawlUrl.simps [simp del]

subsection \<open>Embedding and saving the pending documents\<close>

definition nth_opt :: "'a list \<Rightarrow> nat \<Rightarrow> 'a option" where
  "nth_opt xs i = (if i < length xs then Some (xs ! i) else None)"

text \<open>
  The loop of \<open>processDocuments\<close> over the pending documents: the count of created rows,
  the crawler's error list and the database are its state.
\<close>

fun save_loop ::
  "vector list \<Rightarrow> (nat \<times> document) list \<Rightarrow> nat \<times> string list \<times> database
     \<Rightarrow> nat \<times> string list \<times> database" where
  "save_loop embeddings [] st = st"
| "save_loop embeddings ((i, doc) # rest) (createdCount, errs, db) =
     (case documents_create db (doc\<lparr>embedding := nth_opt embeddings i\<rparr>) of
        Inl e \<Rightarrow>
          save_loop embeddings rest
            (createdCount, errs @ [''Error saving document: '' @ error_message e], db)
      | Inr db' \<Rightarrow> save_loop embeddings rest (createdCount + 1, errs, db'))"

definition processDocuments ::
  "gemini \<Rightarrow> crawler \<Rightarrow> database \<Rightarrow> nat \<times> crawler \<times> database" where
  "processDocuments ai c db =
     (if length (documentsToCreate c) = 0 then (0, c, db)
      else
        (case createEmbeddingsBatch ai (map content (documentsToCreate c)) of
           Inl e \<Rightarrow>
             (0, c\<lparr>errors := errors c @ [''Error processing documents: '' @ error_message e]\<rparr>,
              db)
         | Inr (embeddings, trace) \<Rightarrow>
             (case save_loop embeddings (enumerate 0 (documentsToCreate c)) (0, errors c, db) of
                (createdCount, errs, db') \<Rightarrow> (createdCount, c\<lparr>errors := errs\<rparr>, db'))))"

subsection \<open>A whole crawl\<close>

record crawl_result =
  crawl_success :: bool
  pagesProcessed :: nat
  documentsCreated :: nat
  result_errors :: "string list"

text \<open>
  The \<^verbatim>\<open>catch\<close> block of \<open>crawl\<close>: the error is recorded and the status set to
  \<open>failed\<close>; if that update throws too, \<open>crawl\<close> throws.
\<close>

definition crawl_failed ::
  "website \<Rightarrow> error \<Rightarrow> crawler \<Rightarrow> database \<Rightarrow> (error + crawl_result) \<times> crawler \<times> database" where
  "crawl_failed site e c db =
     (let c' = c\<lparr>errors := errors c @ [''General crawl error: '' @ error_message e]\<rparr>
      in case updateCrawlStatus db (ws_id site) Failed of
           Inl e' \<Rightarrow> (Inl e', c', db)
         | Inr db' \<Rightarrow>
             (Inr \<lparr>crawl_success = False, pagesProcessed = length (visitedUrls c'),
                   documentsCreated = 0, result_errors = errors c'\<rparr>, c', db'))"

definition crawl ::
  "web \<Rightarrow> gemini \<Rightarrow> website \<Rightarrow> crawler_options \<Rightarrow> crawler \<Rightarrow> database
     \<Rightarrow> (error + crawl_result) \<times> crawler \<times> database" where
  "crawl w ai site opts c db =
     (case updateCrawlStatus db (ws_id site) Crawling of
        Inl e \<Rightarrow> crawl_failed site e c db
      | Inr db1 \<Rightarrow>
          (case deleteByWebsiteId db1 (ws_id site) of
             Inl e \<Rightarrow> crawl_failed site e c db1
           | Inr db2 \<Rightarrow>
               (case launch w of
                  Some e \<Rightarrow> crawl_failed site e c db2
                | None \<Rightarrow>
                    (let c1 = crawlUrl w site opts (domain site) 0 (c\<lparr>documentsToCreate := []\<rparr>)
                     in case processDocuments ai c1 db2 of
                          (processedCount, c2, db3) \<Rightarrow>
                            (case updateCrawlStatus db3 (ws_id site) Completed of
                               Inl e \<Rightarrow> crawl_failed site e c2 db3
                             | Inr db4 \<Rightarrow>
                                 (Inr \<lparr>crawl_success = True,
                                       pagesProcessed = length (visitedUrls c2),
                                       documentsCreated = processedCount,
                                       result_errors = errors c2\<rparr>, c2, db4))))))"

definition crawlWebsite ::
  "web \<Rightarrow> gemini \<Rightarrow> string \<Rightarrow> crawl_options option \<Rightarrow> database
     \<Rightarrow> (error + crawl_result) \<times> database" where
  "crawlWebsite w ai websiteId options db =
     (case findByApiKey db websiteId of
        Inl e \<Rightarrow> (Inl e, db)
      | Inr None \<Rightarrow> (Inl (Error ''Website not found''), db)
      | Inr (Some site) \<Rightarrow>
          (case crawl w ai site
                  (case options of None \<Rightarrow> default_options | Some os \<Rightarrow> merge_options os)
                  new_crawler db of
             (r, c, db') \<Rightarrow> (r, db')))"

subsection \<open>Starting a crawl\<close>

text \<open>
  What \<open>startCrawl\<close> can touch: the database, the clock behind \<^verbatim>\<open>Date.now()\<close>, the
  callbacks registered with \<^verbatim>\<open>setTimeout\<close> that are still to run (the delay, and the
  arguments of the \<open>crawlWebsite\<close> call they make), and the crawlers of the crawls in
  progress.
\<close>

datatype timer = BackgroundCrawl nat string "crawl_options option"

record world =
  store :: database
  clock :: nat
  timers :: "timer list"
  crawlers :: "(string \<times> crawler) list"

record start_result =
  success :: bool
  message :: string
  jobId :: "string option"

definition startCrawl ::
  "world \<Rightarrow> string \<Rightarrow> crawl_options option \<Rightarrow> error + start_result \<times> world" where
  "startCrawl wd websiteId options =
     try_catch
       (bind_e (findByApiKey (store wd) websiteId) (\<lambda>found.
          case found of
            None \<Rightarrow> Inr (\<lparr>success = False, message = ''Website not found'', jobId = None\<rparr>, wd)
          | Some site \<Rightarrow>
              if crawl_status site = Crawling
              then Inr (\<lparr>success = False, message = ''Website is already being crawled'',
                         jobId = None\<rparr>, wd)
              else Inr (\<lparr>success = True, message = ''Crawl started successfully'',
                         jobId = Some (''crawl-'' @ ws_id site @ ''-'' @ string_of_nat (clock wd))\<rparr>,
                        wd\<lparr>timers := timers wd @ [BackgroundCrawl 1000 websiteId options]\<rparr>)))
       (\<lambda>error.
          Inr (\<lparr>success = False,
                message = ''Error starting crawl: '' @ error_message error, jobId = None\<rparr>, wd))"

section \<open>The chat route (app/api/chat)\<close>

text \<open>
  JSON values, the request body with the three keys the handler reads (\<open>None\<close> is an
  absent key; the values are strings, as the clients send them), and the reply of the
  Gemini REST endpoint as far as the handler looks into it: every level of the reply may
  be missing, the text of the first part included. The endpoint and the clock are
  parameters; the two readings of the clock in one response are taken to agree.
\<close>

datatype json =
    JString string
  | JNumber nat
  | JBool bool
  | JArray "json list"
  | JObject "(string \<times> json) list"



record chat_body =
  req_message :: "string option"
  req_websiteId :: "string option"
  req_sessionId :: "string option"

datatype part = Part (part_text: "string option")

datatype candidate_content = Content (parts: "part list option")

datatype candidate = Candidate (candidate_content: "candidate_content option")

datatype gemini_data = GeminiData (candidates: "candidate list option")

record http_env =
  GOOGLE_GEMINI_API_KEY :: "string option"
  fetch_gemini :: "string \<Rightarrow> string \<Rightarrow> error + gemini_data"
  date_now :: nat

record response =
  status :: nat
  body :: json
  headers :: "(string \<times> string) list"

definition corsHeaders :: "(string \<times> string) list" where
  "corsHeaders =
     [(''Access-Control-Allow-Origin'', ''*''),
      (''Access-Control-Allow-Methods'', ''GET, POST, OPTIONS''),
      (''Access-Control-Allow-Headers'', ''Content-Type, Authorization'')]"

definition chat_prompt :: "string \<Rightarrow> string" where
  "chat_prompt msg =
     ''Anda adalah asisten AI yang membantu menjawab pertanyaan dalam bahasa Indonesia. \<newline>Berikan jawaban yang informatif, ramah, dan natural.\<newline>\<newline>Pertanyaan: ''
     @ msg @ ''\<newline>\<newline>Jawaban:''"

text \<open>
  \<^verbatim>\<open>data.candidates[0].content.parts[0].text\<close> behind the test of line 63; the text is
  returned unchecked, so the result is \<open>None\<close> (\<^verbatim>\<open>undefined\<close>) when the part has none.
\<close>

definition first_part_text :: "gemini_data \<Rightarrow> error + string option" where
  "first_part_text data =
     (case candidates data of
        None \<Rightarrow> Inl (Error ''Invalid response from Gemini API'')
      | Some [] \<Rightarrow> Inl (Error ''Invalid response from Gemini API'')
      | Some (c # cs) \<Rightarrow>
          (case candidate_content c of
             None \<Rightarrow> Inl (Error ''Invalid response from Gemini API'')
           | Some ct \<Rightarrow>
               (case parts ct of
                  None \<Rightarrow> Inl (Error ''Cannot read properties of undefined (reading '0')'')
                | Some [] \<Rightarrow> Inl (Error ''Cannot read properties of undefined (reading 'text')'')
                | Some (p # ps) \<Rightarrow> Inr (part_text p))))"

definition generateGeminiResponse :: "http_env \<Rightarrow> string \<Rightarrow> error + string option" where
  "generateGeminiResponse env msg =
     try_catch
       (case GOOGLE_GEMINI_API_KEY env of
          None \<Rightarrow> Inl (Error ''Gemini API key not configured'')
        | Some apiKey \<Rightarrow>
            if apiKey = [] then Inl (Error ''Gemini API key not configured'')
            else bind_e (fetch_gemini env apiKey (chat_prompt msg)) first_part_text)
       (\<lambda>error.
          Inr (Some
            ''Maaf, saya tidak dapat memproses permintaan Anda saat ini. Silakan coba lagi.''))"

text \<open>\<^verbatim>\<open>!message\<close> and \<^verbatim>\<open>sessionId || ...\<close> on an optional string: absent and empty are falsy.\<close>

definition falsy :: "string option \<Rightarrow> bool" where
  "falsy v = (case v of None \<Rightarrow> True | Some s \<Rightarrow> s = [])"

text \<open>
  The handler, applied to the outcome of \<^verbatim>\<open>request.json()\<close>: it throws, or gives
  \<^verbatim>\<open>null\<close> (\<open>None\<close>, which cannot be destructured) or an object. \<^verbatim>\<open>Response.json\<close> leaves
  out a key whose value is \<^verbatim>\<open>undefined\<close>.
\<close>

definition destructure :: "chat_body option \<Rightarrow> error + chat_body" where
  "destructure parsed =
     (case parsed of
        None \<Rightarrow> Inl (Error ''Cannot destructure property 'message' of 'body' as it is null.'')
      | Some b \<Rightarrow> Inr b)"

definition POST :: "http_env \<Rightarrow> error + chat_body option \<Rightarrow> error + response" where
  "POST env request_json =
     try_catch
       (bind_e request_json (\<lambda>parsed.
        bind_e (destructure parsed) (\<lambda>b.
          if falsy (req_message b)
          then Inr \<lparr>status = 400, body = JObject [(''error'', JString ''Message is required'')],
                    headers = []\<rparr>
          else bind_e (generateGeminiResponse env (or_default (req_message b) [])) (\<lambda>responseContent.
            Inr \<lparr>status = 200,
                 body = JObject
                   ([(''type'', JString ''response'')] @
                    (case responseContent of
                       None \<Rightarrow> []
                     | Some c \<Rightarrow> [(''content'', JString c)]) @
                   [(''sessionId'',
                       JString (if falsy (req_sessionId b)
                                then ''prod-session-'' @ string_of_nat (date_now env)
                                else or_default (req_sessionId b) [])),
                    (''timestamp'', JNumber (date_now env)),
                    (''metadata'', JObject
                       [(''aiModel'', JString ''Google Gemini 1.5 Flash''),
                        (''productionMode'', JBool True),
                        (''hasDatabase'', JBool False),
                        (''version'', JString ''2.0'')])]),
                 headers = corsHeaders\<rparr>))))
       (\<lambda>error.
          Inr \<lparr>status = 500,
               body = JObject
                 [(''content'',
                     JString ''Maaf, terjadi kesalahan sistem. Silakan coba lagi dalam beberapa saat.''),
                  (''type'', JString ''error''),
                  (''timestamp'', JNumber (date_now env))],
               headers = corsHeaders\<rparr>)"


section \<open>Notions used in the statements\<close>

text \<open>
  The embedding provider fails on a text, or gives nothing to search with: the call
  throws, the result has no embedding or no values, or the vector is empty.
\<close>

definition embedding_unusable :: "gemini \<Rightarrow> string \<Rightarrow> bool" where
  "embedding_unusable ai text =
     (case embedContent ai text of
        Inl e \<Rightarrow> True
      | Inr NoEmbedding \<Rightarrow> True
      | Inr NoValues \<Rightarrow> True
      | Inr (Values v) \<Rightarrow> v = [])"

text \<open>
  Retrieval fails: the embedding of the query is unusable, or the similarity query throws.
\<close>

definition retrieval_fails ::
  "gemini \<Rightarrow> database \<Rightarrow> string \<Rightarrow> string \<Rightarrow> 'a retrieve_options_scheme \<Rightarrow> bool" where
  "retrieval_fails ai db query websiteId options =
     (embedding_unusable ai query \<or>
      (case embedContent ai query of
         Inr (Values qe) \<Rightarrow>
           (case similaritySearch db websiteId qe
                   (case limit options of None \<Rightarrow> 5 | Some l \<Rightarrow> l)
                   (case threshold options of None \<Rightarrow> 0.7 | Some t \<Rightarrow> t) of
              Inl e \<Rightarrow> True
            | Inr docs \<Rightarrow> False)
       | _ \<Rightarrow> False))"

text \<open>The completion provider fails on a prompt: the call throws or its text does.\<close>

definition completion_fails :: "gemini \<Rightarrow> string \<Rightarrow> bool" where
  "completion_fails ai p =
     (case generateContent ai p of
        Inl e \<Rightarrow> True
      | Inr r \<Rightarrow> (case response_text r of Inl e \<Rightarrow> True | Inr t \<Rightarrow> False))"

text \<open>The vector the specification asks for a text: the provider's, or the empty one.\<close>

definition vector_or_empty :: "gemini \<Rightarrow> string \<Rightarrow> vector" where
  "vector_or_empty ai text =
     (case embedContent ai text of Inr (Values v) \<Rightarrow> v | _ \<Rightarrow> [])"

text \<open>
  The specification's batching: the inputs cut into consecutive sub-batches of five (the
  last one may be shorter), and a pause of 100 ms between two sub-batches.
\<close>

function sub_batches :: "'a list \<Rightarrow> 'a list list" where
  "sub_batches xs = (if xs = [] then [] else take 5 xs # sub_batches (drop 5 xs))"
  by pat_completeness auto
termination
  by (relation "measure length") auto

declare sub_batches.simps [simp del]

fun with_pauses :: "string list list \<Rightarrow> batch_event list" where
  "with_pauses [] = []"
| "with_pauses [b] = [EmbedBatch b]"
| "with_pauses (b # c # bs) = EmbedBatch b # Delay 100 # with_pauses (c # bs)"

text \<open>
  The links the crawler follows from a page: none if the page or its anchors cannot be
  read, else the queued links. \<open>reach u x\<close>: \<open>x\<close> is \<open>u\<close> or is found from \<open>u\<close> along
  followed links only.
\<close>

definition followed_links :: "web \<Rightarrow> website \<Rightarrow> string \<Rightarrow> string list" where
  "followed_links w site u =
     (case goto w u of
        Inl e \<Rightarrow> []
      | Inr p \<Rightarrow> (case anchors p of Inl e \<Rightarrow> [] | Inr hrefs \<Rightarrow> internalLinks w site hrefs))"

inductive reach :: "web \<Rightarrow> website \<Rightarrow> string \<Rightarrow> string \<Rightarrow> bool" for w site where
  reach_self: "reach w site u u"
| reach_link: "l \<in> set (followed_links w site u) \<Longrightarrow> reach w site l x \<Longrightarrow> reach w site u x"

text \<open>
  \<open>extends R c r\<close>: state \<open>r\<close> is state \<open>c\<close> with new, distinct URLs from \<open>R\<close> appended to the
  visited list, and with new pending documents, all for newly visited URLs.
\<close>

definition extends :: "string set \<Rightarrow> crawler \<Rightarrow> crawler \<Rightarrow> bool" where
  "extends R c r \<longleftrightarrow>
     (\<exists>vnew dnew.
        visitedUrls r = visitedUrls c @ vnew \<and> distinct vnew \<and>
        set vnew \<inter> set (visitedUrls c) = {} \<and> set vnew \<subseteq> R \<and>
        documentsToCreate r = documentsToCreate c @ dnew \<and> url ` set dnew \<subseteq> set vnew)"



section \<open>Example inputs\<close>

text \<open>
  A store with chunks of two tenants. The distance of the example compares the sums of the
  two vectors.
\<close>

definition ex_doc :: "string \<Rightarrow> string \<Rightarrow> real \<Rightarrow> document" where
  "ex_doc T u x =
     \<lparr>website_id = T, content = ''text'', url = u, title = None, embedding = Some [x],
      metadata = []\<rparr>"

definition ex_site :: "crawl_status \<Rightarrow> website" where
  "ex_site st =
     \<lparr>ws_id = ''t1'', domain = ''https://example.com'', api_key = ''key1'',
      last_crawled_at = None, crawl_status = st, is_active = True\<rparr>"

definition ex_db :: database where
  "ex_db =
     \<lparr>websites_tbl = [ex_site Crawling],
      documents_tbl =
        [ex_doc ''t1'' ''a'' 0.2, ex_doc ''t2'' ''b'' 0, ex_doc ''t1'' ''c'' 0.05,
         ex_doc ''t1'' ''d'' 0.6],
      db_now = 0, fault = None, rejects = (\<lambda>d. None),
      cosine_distance = (\<lambda>a b. \<bar>sum_list a - sum_list b\<bar>)\<rparr>"

text \<open>
  A provider that embeds every text but \<open>''bad''\<close>, on which it throws, and answers
  every prompt with \<open>''Hello''\<close>; and one whose completion model throws.
\<close>

definition ex_ai :: gemini where
  "ex_ai =
     \<lparr>embedContent =
        (\<lambda>t. if t = ''bad'' then Inl (Error ''429'') else Inr (Values [real (length t) - 1])),
      generateContent = (\<lambda>p. Inr \<lparr>response_text = Inr ''Hello''\<rparr>)\<rparr>"

definition ex_ai_down :: gemini where
  "ex_ai_down = ex_ai\<lparr>generateContent := (\<lambda>p. Inl (Error ''503''))\<rparr>"

text \<open>The example store with its server unreachable.\<close>

definition ex_db_down :: database where
  "ex_db_down = ex_db\<lparr>fault := Some (Error ''ECONNREFUSED'')\<rparr>"

definition ex_opts :: rag_options where
  "ex_opts = \<lparr>limit = None, threshold = None, includeContext = None\<rparr>"

text \<open>
  A world in which tenant \<open>t1\<close> is being crawled, and one in which its crawl has
  completed; a chat request and a Gemini endpoint that answers \<open>''Halo''\<close>.
\<close>

definition ex_world :: world where
  "ex_world =
     \<lparr>store = ex_db, clock = 1700000000000, timers = [],
      crawlers = [(''t1'', \<lparr>visitedUrls = [''https://example.com''], errors = [],
                            documentsToCreate = []\<rparr>)]\<rparr>"

definition ex_world_idle :: world where
  "ex_world_idle = ex_world\<lparr>store := ex_db\<lparr>websites_tbl := [ex_site Completed]\<rparr>, crawlers := []\<rparr>"




text \<open>
  A site whose root page has 101 characters of text and fourteen anchors, twelve of them
  to pages of the site; every other page has exactly 100 characters of text and no anchors.
  The splitter of the example returns the text as one chunk.
\<close>

definition ex_root :: string where
  "ex_root = ''https://example.com''"

definition ex_hrefs :: "string list" where
  "ex_hrefs =
     [''https://example.com/p1'', ''mailto:info@example.com'', ''https://example.com/p2'',
      ''https://other.org/x'', ''https://example.com/p3'', ''https://example.com/p4'',
      ''https://example.com/p5'', ''https://example.com/p6'', ''https://example.com/p7'',
      ''https://example.com/p8'', ''https://example.com/p9'', ''https://example.com/p10'',
      ''https://example.com/p11'', ''https://example.com/p12'']"

definition ex_page :: "nat \<Rightarrow> string list \<Rightarrow> page" where
  "ex_page n hrefs =
     \<lparr>page_title = ''Example'',
      select_text = (\<lambda>s. if s = ''main'' then Some (replicate n (CHR ''a'')) else None),
      anchors = Inr hrefs\<rparr>"

definition ex_web :: web where
  "ex_web =
     \<lparr>launch = None,
      goto = (\<lambda>u. if u = ex_root then Inr (ex_page 101 ex_hrefs) else Inr (ex_page 100 [])),
      hostname = (\<lambda>u. if startsWith u ''https://example.com'' then Some ''example.com''
                       else if startsWith u ''https://'' then Some ''other.org'' else None),
      splitText = (\<lambda>t. Inr [t]),
      now_iso = ''2024-01-01T00:00:00.000Z''\<rparr>"

definition ex_crawled :: crawler where
  "ex_crawled = crawlUrl ex_web (ex_site Crawling) default_options ex_root 0 new_crawler"

definition ex_three :: crawler_options where
  "ex_three = default_options\<lparr>maxPages := 3\<rparr>"

section \<open>Tenant isolation of the similarity search\<close>

lemma select_row_tenant:
  "select_row db T v t d = Some (k, r) \<Longrightarrow> website_id r = T"
  by (auto simp: select_row_def Let_def document.defs split: option.splits if_splits)

lemma map_filter_select_tenant:
  "r \<in> snd ` set (List.map_filter (select_row db T v t) rows) \<Longrightarrow> website_id r = T"
  by (auto simp: List.map_filter_def dest: select_row_tenant)

text \<open>
  Claim C1. Every row returned by \<open>similaritySearch\<close> for tenant \<open>T\<close> has \<open>website_id = T\<close>,
  whatever the query vector, the limit and the threshold: a chunk of another tenant is
  never returned.
\<close>

theorem similaritySearch_tenant_isolation:
  "similaritySearch db T v L t = Inr ds \<Longrightarrow> \<forall>d \<in> set ds. website_id d = T"
proof
  fix d
  assume res: "similaritySearch db T v L t = Inr ds" and d: "d \<in> set ds"
  from res have "ds = take (nat L) (map snd (sort_key fst
      (List.map_filter (select_row db T v t) (documents_tbl db))))"
    by (auto simp: similaritySearch_def split: option.splits if_splits)
  with d have "d \<in> set (map snd (sort_key fst
      (List.map_filter (select_row db T v t) (documents_tbl db))))"
    by (auto dest: in_set_takeD)
  then have "d \<in> snd ` set (List.map_filter (select_row db T v t) (documents_tbl db))"
    by simp
  then show "website_id d = T"
    by (rule map_filter_select_tenant)
qed


theorem similaritySearch_tenant_isolation_witness:
  "\<exists>ds. similaritySearch ex_db ''t1'' [0] 5 0.7 = Inr ds \<and> map url ds = [''c'', ''a'']
     \<and> (\<forall>d \<in> set ds. website_id d = ''t1'')"
proof -
  obtain ds where e: "similaritySearch ex_db ''t1'' [0] 5 0.7 = Inr ds"
    and u: "map url ds = [''c'', ''a'']"
    by (simp add: similaritySearch_def ex_db_def ex_doc_def select_row_def document.defs Let_def)
  from similaritySearch_tenant_isolation [OF e] e u show ?thesis by simp
qed

section \<open>How a crawl extends the crawler's state\<close>

lemma visited_record_error [simp]: "visitedUrls (record_error u e c) = visitedUrls c"
  by (simp add: record_error_def)

lemma docs_record_error [simp]: "documentsToCreate (record_error u e c) = documentsToCreate c"
  by (simp add: record_error_def)

lemma extends_refl: "extends R c c"
  by (simp add: extends_def)

lemma extends_mono:
  assumes "extends R c r" and "R \<subseteq> R'"
  shows "extends R' c r"
proof -
  from assms(1) obtain vnew dnew where 1: "visitedUrls r = visitedUrls c @ vnew" "distinct vnew"
    "set vnew \<inter> set (visitedUrls c) = {}" "set vnew \<subseteq> R"
    "documentsToCreate r = documentsToCreate c @ dnew" "url ` set dnew \<subseteq> set vnew"
    unfolding extends_def by blast
  from 1(4) assms(2) have "set vnew \<subseteq> R'" by (rule subset_trans)
  with 1 show ?thesis unfolding extends_def by blast
qed

lemma extends_error: "extends R c r \<Longrightarrow> extends R c (record_error u e r)"
  by (simp add: extends_def)

lemma extends_trans:
  assumes "extends R c c'" and "extends R' c' c''"
  shows "extends (R \<union> R') c c''"
proof -
  from assms(1) obtain v1 d1 where 1: "visitedUrls c' = visitedUrls c @ v1" "distinct v1"
    "set v1 \<inter> set (visitedUrls c) = {}" "set v1 \<subseteq> R"
    "documentsToCreate c' = documentsToCreate c @ d1" "url ` set d1 \<subseteq> set v1"
    unfolding extends_def by blast
  from assms(2) obtain v2 d2 where 2: "visitedUrls c'' = visitedUrls c' @ v2" "distinct v2"
    "set v2 \<inter> set (visitedUrls c') = {}" "set v2 \<subseteq> R'"
    "documentsToCreate c'' = documentsToCreate c' @ d2" "url ` set d2 \<subseteq> set v2"
    unfolding extends_def by blast
  have "visitedUrls c'' = visitedUrls c @ (v1 @ v2)" using 1 2 by simp
  moreover have "distinct (v1 @ v2)" using 1 2 by auto
  moreover have "set (v1 @ v2) \<inter> set (visitedUrls c) = {}" using 1 2 by auto
  moreover have "set (v1 @ v2) \<subseteq> R \<union> R'" using 1 2 by auto
  moreover have "documentsToCreate c'' = documentsToCreate c @ (d1 @ d2)" using 1 2 by simp
  moreover have "url ` set (d1 @ d2) \<subseteq> set (v1 @ v2)" using 1 2 by auto
  ultimately show ?thesis unfolding extends_def by blast
qed

lemma content_pending [simp]: "content (pending_document w site u t n ic) = snd ic"
  by (simp add: pending_document_def)

lemma url_pending [simp]: "url (pending_document w site u t n ic) = u"
  by (simp add: pending_document_def)

lemma website_id_pending [simp]: "website_id (pending_document w site u t n ic) = ws_id site"
  by (simp add: pending_document_def)

lemma embedding_pending [simp]: "embedding (pending_document w site u t n ic) = None"
  by (simp add: pending_document_def)

lemma contents_pending:
  "map content (map (pending_document w site u t n) (enumerate k chunks)) = chunks"
proof -
  have "map content (map (pending_document w site u t n) (enumerate k chunks))
      = map snd (enumerate k chunks)"
    by (simp add: comp_def del: enumerate_eq_zip)
  then show ?thesis by (simp only: map_snd_enumerate)
qed

lemma page_documents_short:
  "\<not> length (clean_text (extract_text p)) > 100 \<Longrightarrow> page_documents w site u p c = Inr c"
  by (simp add: page_documents_def Let_def)

lemma page_documents_long:
  "length (clean_text (extract_text p)) > 100 \<Longrightarrow>
     page_documents w site u p c =
       (case splitText w (clean_text (extract_text p)) of
          Inl e \<Rightarrow> Inl e
        | Inr chunks \<Rightarrow>
            Inr (c\<lparr>documentsToCreate := documentsToCreate c @
                  map (pending_document w site u (page_title p) (length chunks))
                    (enumerate 0 chunks)\<rparr>))"
  by (simp add: page_documents_def Let_def bind_e_def del: enumerate_eq_zip)

lemma page_documents_Inr:
  assumes "page_documents w site u p c = Inr c2"
  shows "\<exists>dnew. c2 = c\<lparr>documentsToCreate := documentsToCreate c @ dnew\<rparr> \<and>
     (\<forall>d \<in> set dnew. url d = u \<and> website_id d = ws_id site \<and> embedding d = None) \<and>
     (if length (clean_text (extract_text p)) > 100
      then splitText w (clean_text (extract_text p)) = Inr (map content dnew)
      else dnew = [])"
proof (cases "length (clean_text (extract_text p)) > 100")
  case False
  with assms page_documents_short [OF False, of w site u c] have "c2 = c" by simp
  with False show ?thesis by (intro exI [of _ "[]"]) simp
next
  case True
  show ?thesis
  proof (cases "splitText w (clean_text (extract_text p))")
    case (Inl e)
    with assms page_documents_long [OF True, of w site u c] show ?thesis by simp
  next
    case (Inr chunks)
    let ?dnew = "map (pending_document w site u (page_title p) (length chunks)) (enumerate 0 chunks)"
    from assms page_documents_long [OF True, of w site u c] Inr
    have c2: "c2 = c\<lparr>documentsToCreate := documentsToCreate c @ ?dnew\<rparr>"
      by (simp del: enumerate_eq_zip)
    have props: "\<forall>d \<in> set ?dnew. url d = u \<and> website_id d = ws_id site \<and> embedding d = None"
      by (auto simp del: enumerate_eq_zip)
    have "map content ?dnew = chunks" by (rule contents_pending)
    with True Inr have "if length (clean_text (extract_text p)) > 100
      then splitText w (clean_text (extract_text p)) = Inr (map content ?dnew)
      else ?dnew = []" by (simp only: if_True)
    with c2 props show ?thesis by blast
  qed
qed

lemma extends_visit:
  assumes "u \<notin> set (visitedUrls c)"
  shows "extends {u} c (c\<lparr>visitedUrls := visitedUrls c @ [u]\<rparr>)"
  using assms by (simp add: extends_def)

lemma extends_page:
  assumes "u \<notin> set (visitedUrls c)"
    and "page_documents w site u p (c\<lparr>visitedUrls := visitedUrls c @ [u]\<rparr>) = Inr c2"
  shows "extends {u} c c2"
proof -
  from page_documents_Inr [OF assms(2)] obtain dnew where
    "c2 = c\<lparr>visitedUrls := visitedUrls c @ [u]\<rparr>\<lparr>documentsToCreate := documentsToCreate c @ dnew\<rparr>"
    "\<forall>d \<in> set dnew. url d = u"
    by auto
  with assms(1) show ?thesis
    unfolding extends_def
    by (intro exI [of _ "[u]"] exI [of _ dnew]) auto
qed

lemma reach_followed:
  "goto w u = Inr p \<Longrightarrow> anchors p = Inr hrefs \<Longrightarrow> l \<in> set (internalLinks w site hrefs) \<Longrightarrow>
     reach w site l x \<Longrightarrow> reach w site u x"
  by (rule reach_link [of l]) (simp_all add: followed_links_def)

lemma crawl_extends:
  "extends {x. reach w site u x} c (crawlUrl w site opts u depth c)"
  "extends {x. \<exists>l \<in> set links. reach w site l x} c (crawlLinks w site opts links depth c)"
proof (induction w site opts u depth c and w site opts links depth c
       rule: crawlUrl_crawlLinks.induct)
  case (1 w site opts u depth c)
  let ?R = "{x. reach w site u x}"
  show ?case
  proof (cases "depth > maxDepth opts \<or> length (visitedUrls c) \<ge> maxPages opts
         \<or> u \<in> set (visitedUrls c) \<or> \<not> shouldCrawlUrl opts u")
    case True
    then show ?thesis by (auto simp: crawlUrl.simps extends_refl)
  next
    case False
    let ?c1 = "c\<lparr>visitedUrls := visitedUrls c @ [u]\<rparr>"
    from False have nv: "u \<notin> set (visitedUrls c)" by simp
    have self: "{u} \<subseteq> ?R" by (simp add: reach_self)
    have e1: "extends ?R c ?c1"
      by (rule extends_mono [OF extends_visit [OF nv] self])
    show ?thesis
    proof (cases "goto w u")
      case (Inl e)
      with False extends_error [OF e1] show ?thesis by (simp add: crawlUrl.simps)
    next
      case p: (Inr p)
      show ?thesis
      proof (cases "page_documents w site u p ?c1")
        case (Inl e)
        with False p extends_error [OF e1] show ?thesis by (simp add: crawlUrl.simps)
      next
        case c2: (Inr c2)
        have e2: "extends ?R c c2"
          by (rule extends_mono [OF extends_page [OF nv c2] self])
        show ?thesis
        proof (cases "depth < maxDepth opts")
          case False
          with \<open>\<not> (depth > maxDepth opts \<or> _)\<close> e2 p c2 show ?thesis
            by (simp add: crawlUrl.simps)
        next
          case d: True
          show ?thesis
          proof (cases "anchors p")
            case (Inl e)
            with False extends_error [OF e2] p c2 d show ?thesis by (simp add: crawlUrl.simps)
          next
            case (Inr hrefs)
            from False have g: "\<not> (depth > maxDepth opts \<or> length (visitedUrls c) \<ge> maxPages opts
                \<or> u \<in> set (visitedUrls c))" "\<not> \<not> shouldCrawlUrl opts u" by auto
            let ?r = "crawlLinks w site opts (internalLinks w site hrefs) (depth + 1) c2"
            from "1.IH" [OF g refl p c2 d Inr]
            have "extends {x. \<exists>l \<in> set (internalLinks w site hrefs). reach w site l x} c2 ?r" .
            moreover have "{x. \<exists>l \<in> set (internalLinks w site hrefs). reach w site l x} \<subseteq> ?R"
              using reach_followed [OF p Inr] by blast
            ultimately have "extends ?R c2 ?r" by (rule extends_mono)
            from extends_trans [OF e2 this] have "extends ?R c ?r" by simp
            with False p c2 d Inr show ?thesis by (simp add: crawlUrl.simps)
          qed
        qed
      qed
    qed
  qed
next
  case (2 w site opts depth c)
  then show ?case by (simp add: extends_refl)
next
  case (3 w site opts link links depth c)
  let ?c' = "crawlUrl w site opts link depth c"
  have a: "extends {x. \<exists>l \<in> set (link # links). reach w site l x} c ?c'"
    by (rule extends_mono [OF "3.IH"(1)]) auto
  have b: "extends {x. \<exists>l \<in> set (link # links). reach w site l x} ?c'
      (crawlLinks w site opts links depth ?c')"
    by (rule extends_mono [OF "3.IH"(2)]) auto
  from extends_trans [OF a b] show ?case by simp
qed


lemma ex_internal:
  "internalLinks ex_web (ex_site Crawling) ex_hrefs =
     [''https://example.com/p1'', ''https://example.com/p2'', ''https://example.com/p3'',
      ''https://example.com/p4'', ''https://example.com/p5'', ''https://example.com/p6'',
      ''https://example.com/p7'', ''https://example.com/p8'', ''https://example.com/p9'',
      ''https://example.com/p10'']"
  by (simp add: internalLinks_def isInternalLink_def ex_web_def ex_site_def ex_hrefs_def
        startsWith_def)


lemma ex_crawl_result:
  "ex_crawled =
     \<lparr>visitedUrls =
        [''https://example.com'',
         ''https://example.com/p1'', ''https://example.com/p2'', ''https://example.com/p3'',
         ''https://example.com/p4'', ''https://example.com/p5'', ''https://example.com/p6'',
         ''https://example.com/p7'', ''https://example.com/p8'', ''https://example.com/p9'',
         ''https://example.com/p10''],
      errors = [],
      documentsToCreate =
        [\<lparr>website_id = ''t1'', content = replicate 101 (CHR ''a''), url = ''https://example.com'',
          title = Some ''Example'', embedding = None,
          metadata =
            [(''source_domain'', MStr ''https://example.com''), (''chunk_index'', MNum 0),
             (''total_chunks'', MNum 1), (''crawl_timestamp'', MStr ''2024-01-01T00:00:00.000Z''),
             (''page_title'', MStr ''Example'')]\<rparr>]\<rparr>"
  by code_simp

lemma ex_clean_100: "length (clean_text (extract_text (ex_page 100 []))) = 100"
  by code_simp

lemma ex_clean_101: "length (clean_text (extract_text (ex_page 101 ex_hrefs))) = 101"
  by code_simp

section \<open>What the retriever returns\<close>

lemma retrieve_total:
  "\<exists>ctx. retrieveRelevantDocuments ai db query T options = Inr ctx"
  by (simp add: retrieveRelevantDocuments_def try_catch_def Let_def split: sum.splits)

lemma retrieve_unusable:
  assumes "embedding_unusable ai query"
  shows "retrieveRelevantDocuments ai db query T options =
     Inr \<lparr>documents = [], totalSources = 0,
          similarity_threshold = (case threshold options of None \<Rightarrow> 0.7 | Some t \<Rightarrow> t)\<rparr>"
  using assms
  by (auto simp: retrieveRelevantDocuments_def embedding_unusable_def try_catch_def bind_e_def
        Let_def split: sum.splits embed_response.splits option.splits if_splits)

lemma retrieve_fails:
  assumes "retrieval_fails ai db query T options"
  shows "retrieveRelevantDocuments ai db query T options =
     Inr \<lparr>documents = [], totalSources = 0,
          similarity_threshold = (case threshold options of None \<Rightarrow> 0.7 | Some t \<Rightarrow> t)\<rparr>"
proof (cases "embedding_unusable ai query")
  case True
  then show ?thesis by (rule retrieve_unusable)
next
  case False
  then obtain qe where qe: "embedContent ai query = Inr (Values qe)" "qe \<noteq> []"
    by (auto simp: embedding_unusable_def split: sum.splits embed_response.splits)
  let ?s = "similaritySearch db T qe (case limit options of None \<Rightarrow> 5 | Some l \<Rightarrow> l)
       (case threshold options of None \<Rightarrow> 0.7 | Some t \<Rightarrow> t)"
  from assms False qe have "case ?s of Inl e \<Rightarrow> True | Inr docs \<Rightarrow> False"
    by (simp add: retrieval_fails_def)
  then obtain e where "?s = Inl e"
    by (cases ?s) simp_all
  with qe show ?thesis
    by (simp add: retrieveRelevantDocuments_def try_catch_def bind_e_def)
qed

section \<open>The retriever degrades to an empty context\<close>

text \<open>
  Claim C2. \<open>retrieveRelevantDocuments\<close> always returns a context and never an exception;
  when the embedding provider throws on the query or returns no usable vector (no
  embedding, no values or an empty vector), the context has no documents and
  \<open>totalSources = 0\<close>.
\<close>

theorem retrieve_embedding_failure:
  "(\<exists>ctx. retrieveRelevantDocuments ai db query T options = Inr ctx) \<and>
   (embedding_unusable ai query \<longrightarrow>
      retrieveRelevantDocuments ai db query T options =
        Inr \<lparr>documents = [], totalSources = 0,
             similarity_threshold = (case threshold options of None \<Rightarrow> 0.7 | Some t \<Rightarrow> t)\<rparr>)"
  using retrieve_total retrieve_unusable by blast

theorem retrieve_embedding_failure_witness:
  "embedding_unusable ex_ai ''bad'' \<and>
   retrieveRelevantDocuments ex_ai ex_db ''bad'' ''t1'' \<lparr>limit = None, threshold = None\<rparr> =
     Inr \<lparr>documents = [], totalSources = 0, similarity_threshold = 0.7\<rparr>"
proof -
  have u: "embedding_unusable ex_ai ''bad''"
    by (simp add: embedding_unusable_def ex_ai_def)
  from retrieve_embedding_failure [of ex_ai ex_db "''bad''" "''t1''" "\<lparr>limit = None, threshold = None\<rparr>"] u
  show ?thesis by simp
qed

section \<open>The composer never throws\<close>

lemma generate_cases:
  assumes "retrieveRelevantDocuments ai db q T opts = Inr ctx"
  shows "generateRAGResponse ai db q T h opts =
     (case generateContent ai (prompt (contextText (documents ctx)) (historyText h) q) of
        Inl e \<Rightarrow> Inr \<lparr>answer = fallback_answer, rcontext = empty_context, sources = []\<rparr>
      | Inr g \<Rightarrow>
          (case response_text g of
             Inl e \<Rightarrow> Inr \<lparr>answer = fallback_answer, rcontext = empty_context, sources = []\<rparr>
           | Inr a \<Rightarrow>
               Inr \<lparr>answer = a,
                    rcontext = (if (case includeContext opts of None \<Rightarrow> True | Some b \<Rightarrow> b)
                                then ctx else empty_context),
                    sources = unique (map url (documents ctx))\<rparr>))"
  using assms
  by (simp add: generateRAGResponse_def try_catch_def bind_e_def Let_def split: sum.splits)

lemma generate_total: "\<exists>r. generateRAGResponse ai db q T h opts = Inr r"
proof -
  obtain ctx where "retrieveRelevantDocuments ai db q T opts = Inr ctx"
    using retrieve_total by blast
  from generate_cases [OF this] show ?thesis
    by (auto split: sum.splits)
qed

lemma generate_completion_fails:
  assumes "retrieveRelevantDocuments ai db q T opts = Inr ctx"
    and "completion_fails ai (prompt (contextText (documents ctx)) (historyText h) q)"
  shows "generateRAGResponse ai db q T h opts =
     Inr \<lparr>answer = fallback_answer, rcontext = empty_context, sources = []\<rparr>"
  using assms(2) unfolding generate_cases [OF assms(1)] completion_fails_def
  by (auto split: sum.splits)

lemma generate_retrieval_fails:
  assumes "retrieval_fails ai db q T opts"
  shows "generateRAGResponse ai db q T h opts =
     (case generateContent ai (prompt [] (historyText h) q) of
        Inl e \<Rightarrow> Inr \<lparr>answer = fallback_answer, rcontext = empty_context, sources = []\<rparr>
      | Inr g \<Rightarrow>
          (case response_text g of
             Inl e \<Rightarrow> Inr \<lparr>answer = fallback_answer, rcontext = empty_context, sources = []\<rparr>
           | Inr a \<Rightarrow>
               Inr \<lparr>answer = a,
                    rcontext =
                      (if (case includeContext opts of None \<Rightarrow> True | Some b \<Rightarrow> b)
                       then \<lparr>documents = [], totalSources = 0,
                             similarity_threshold =
                               (case threshold opts of None \<Rightarrow> 0.7 | Some t \<Rightarrow> t)\<rparr>
                       else empty_context),
                    sources = []\<rparr>))"
proof -
  have "generateRAGResponse ai db q T h opts =
     (case generateContent ai (prompt (contextText (documents
            \<lparr>documents = [], totalSources = 0,
             similarity_threshold = (case threshold opts of None \<Rightarrow> 0.7 | Some t \<Rightarrow> t)\<rparr>))
          (historyText h) q) of
        Inl e \<Rightarrow> Inr \<lparr>answer = fallback_answer, rcontext = empty_context, sources = []\<rparr>
      | Inr g \<Rightarrow>
          (case response_text g of
             Inl e \<Rightarrow> Inr \<lparr>answer = fallback_answer, rcontext = empty_context, sources = []\<rparr>
           | Inr a \<Rightarrow>
               Inr \<lparr>answer = a,
                    rcontext = (if (case includeContext opts of None \<Rightarrow> True | Some b \<Rightarrow> b)
                                then \<lparr>documents = [], totalSources = 0,
                                      similarity_threshold =
                                        (case threshold opts of None \<Rightarrow> 0.7 | Some t \<Rightarrow> t)\<rparr>
                                else empty_context),
                    sources = unique (map url (documents
                      \<lparr>documents = [], totalSources = 0,
                       similarity_threshold =
                         (case threshold opts of None \<Rightarrow> 0.7 | Some t \<Rightarrow> t)\<rparr>))\<rparr>))"
    by (rule generate_cases [OF retrieve_fails [OF assms]])
  then show ?thesis
    by (simp add: unique_def contextText_def split: sum.splits)
qed

text \<open>
  Claim C3, as the code has it. \<open>generateRAGResponse\<close> always returns a response and never
  an exception. When the completion call fails, the response is the fallback answer with
  no sources and the zeroed context. When retrieval fails (the embedding of the query is
  unusable or the similarity query throws), the retriever has already absorbed the failure
  and the completion is still called, on the prompt without context: if it answers, the
  response carries exactly its text, no sources and a context without documents (the
  zeroed context when \<open>includeContext\<close> is false); the response is the fallback answer only if
  the completion fails as well.
\<close>

theorem generateRAGResponse_never_throws:
  "(\<exists>r. generateRAGResponse ai db q T h opts = Inr r) \<and>
   (\<forall>ctx. retrieveRelevantDocuments ai db q T opts = Inr ctx \<and>
          completion_fails ai (prompt (contextText (documents ctx)) (historyText h) q) \<longrightarrow>
      generateRAGResponse ai db q T h opts =
        Inr \<lparr>answer = fallback_answer, rcontext = empty_context, sources = []\<rparr>) \<and>
   (retrieval_fails ai db q T opts \<longrightarrow>
      (completion_fails ai (prompt [] (historyText h) q) \<longrightarrow>
         generateRAGResponse ai db q T h opts =
           Inr \<lparr>answer = fallback_answer, rcontext = empty_context, sources = []\<rparr>) \<and>
      (\<forall>g a. generateContent ai (prompt [] (historyText h) q) = Inr g \<and>
             response_text g = Inr a \<longrightarrow>
         generateRAGResponse ai db q T h opts =
           Inr \<lparr>answer = a,
                rcontext =
                  (if (case includeContext opts of None \<Rightarrow> True | Some b \<Rightarrow> b)
                   then \<lparr>documents = [], totalSources = 0,
                         similarity_threshold =
                           (case threshold opts of None \<Rightarrow> 0.7 | Some t \<Rightarrow> t)\<rparr>
                   else empty_context),
                sources = []\<rparr>))"
proof (intro conjI allI impI)
  show "\<exists>r. generateRAGResponse ai db q T h opts = Inr r"
    by (rule generate_total)
next
  fix ctx
  assume "retrieveRelevantDocuments ai db q T opts = Inr ctx \<and>
          completion_fails ai (prompt (contextText (documents ctx)) (historyText h) q)"
  then show "generateRAGResponse ai db q T h opts =
        Inr \<lparr>answer = fallback_answer, rcontext = empty_context, sources = []\<rparr>"
    using generate_completion_fails by blast
next
  assume "retrieval_fails ai db q T opts"
    and "completion_fails ai (prompt [] (historyText h) q)"
  then show "generateRAGResponse ai db q T h opts =
        Inr \<lparr>answer = fallback_answer, rcontext = empty_context, sources = []\<rparr>"
    by (simp add: generate_retrieval_fails completion_fails_def split: sum.splits)
next
  fix g a
  assume "retrieval_fails ai db q T opts"
    and "generateContent ai (prompt [] (historyText h) q) = Inr g \<and> response_text g = Inr a"
  then show "generateRAGResponse ai db q T h opts =
           Inr \<lparr>answer = a,
                rcontext =
                  (if (case includeContext opts of None \<Rightarrow> True | Some b \<Rightarrow> b)
                   then \<lparr>documents = [], totalSources = 0,
                         similarity_threshold =
                           (case threshold opts of None \<Rightarrow> 0.7 | Some t \<Rightarrow> t)\<rparr>
                   else empty_context),
                sources = []\<rparr>"
    by (simp add: generate_retrieval_fails)
qed

text \<open>
  The claim as stated promises the fallback answer whenever retrieval fails. With a provider
  whose embedding call throws and whose completion model answers \<open>''Hello''\<close>, the answer
  returned is \<open>''Hello''\<close>.
\<close>

theorem generateRAGResponse_fallback_counterexample:
  "embedContent ex_ai ''bad'' = Inl (Error ''429'') \<and>
   generateRAGResponse ex_ai ex_db ''bad'' ''t1'' [] ex_opts =
     Inr \<lparr>answer = ''Hello'',
          rcontext = \<lparr>documents = [], totalSources = 0, similarity_threshold = 0.7\<rparr>,
          sources = []\<rparr> \<and>
   ''Hello'' \<noteq> fallback_answer"
  by (simp add: generateRAGResponse_def retrieveRelevantDocuments_def try_catch_def bind_e_def
        ex_ai_def ex_opts_def unique_def fallback_answer_def)

theorem generateRAGResponse_never_throws_witness:
  "retrieval_fails ex_ai ex_db_down ''q'' ''t1'' ex_opts \<and>
   retrieval_fails ex_ai_down ex_db ''bad'' ''t1'' ex_opts \<and>
   completion_fails ex_ai_down (prompt [] (historyText []) ''bad'') \<and>
   generateRAGResponse ex_ai_down ex_db ''bad'' ''t1'' [] ex_opts =
     Inr \<lparr>answer = fallback_answer, rcontext = empty_context, sources = []\<rparr> \<and>
   generateContent ex_ai (prompt [] (historyText []) ''q'') = Inr \<lparr>response_text = Inr ''Hello''\<rparr> \<and>
   generateRAGResponse ex_ai ex_db_down ''q'' ''t1'' [] ex_opts =
     Inr \<lparr>answer = ''Hello'',
          rcontext = \<lparr>documents = [], totalSources = 0, similarity_threshold = 0.7\<rparr>,
          sources = []\<rparr>"
proof -
  have u: "retrieval_fails ex_ai ex_db_down ''q'' ''t1'' ex_opts"
    by (simp add: retrieval_fails_def embedding_unusable_def similaritySearch_def ex_ai_def
          ex_db_down_def ex_db_def ex_opts_def)
  have u': "retrieval_fails ex_ai_down ex_db ''bad'' ''t1'' ex_opts"
    by (simp add: retrieval_fails_def embedding_unusable_def ex_ai_down_def ex_ai_def)
  have f: "completion_fails ex_ai_down (prompt [] (historyText []) ''bad'')"
    by (simp add: completion_fails_def ex_ai_down_def ex_ai_def)
  from generateRAGResponse_never_throws [of ex_ai_down ex_db "''bad''" "''t1''" "[]" ex_opts] u' f
  have down: "generateRAGResponse ex_ai_down ex_db ''bad'' ''t1'' [] ex_opts =
     Inr \<lparr>answer = fallback_answer, rcontext = empty_context, sources = []\<rparr>"
    by blast
  have g: "generateContent ex_ai (prompt [] (historyText []) ''q'') = Inr \<lparr>response_text = Inr ''Hello''\<rparr>"
    by (simp add: ex_ai_def)
  then have ga: "generateContent ex_ai (prompt [] (historyText []) ''q'') = Inr \<lparr>response_text = Inr ''Hello''\<rparr>
      \<and> response_text \<lparr>response_text = Inr ''Hello''\<rparr> = Inr ''Hello''"
    by simp
  from generateRAGResponse_never_throws [of ex_ai ex_db_down "''q''" "''t1''" "[]" ex_opts] u ga
  have "generateRAGResponse ex_ai ex_db_down ''q'' ''t1'' [] ex_opts =
     Inr \<lparr>answer = ''Hello'',
          rcontext =
            (if (case includeContext ex_opts of None \<Rightarrow> True | Some b \<Rightarrow> b)
             then \<lparr>documents = [], totalSources = 0,
                   similarity_threshold = (case threshold ex_opts of None \<Rightarrow> 0.7 | Some t \<Rightarrow> t)\<rparr>
             else empty_context),
          sources = []\<rparr>"
    by blast
  then have up: "generateRAGResponse ex_ai ex_db_down ''q'' ''t1'' [] ex_opts =
     Inr \<lparr>answer = ''Hello'',
          rcontext = \<lparr>documents = [], totalSources = 0, similarity_threshold = 0.7\<rparr>,
          sources = []\<rparr>"
    by (simp add: ex_opts_def)
  from u u' f down g up show ?thesis by blast
qed

section \<open>A higher threshold selects fewer chunks\<close>

lemma select_row_mono:
  "t1 \<le> t2 \<Longrightarrow> select_row db T v t2 d = Some r \<Longrightarrow> select_row db T v t1 d = Some r"
  by (auto simp: select_row_def Let_def split: option.splits if_splits)

lemma map_filter_select_mono:
  "t1 \<le> t2 \<Longrightarrow>
     length (List.map_filter (select_row db T v t2) rows)
       \<le> length (List.map_filter (select_row db T v t1) rows)"
proof (induction rows)
  case Nil
  then show ?case by simp
next
  case (Cons d rows)
  show ?case
  proof (cases "select_row db T v t2 d")
    case None
    with Cons show ?thesis by (simp split: option.splits)
  next
    case (Some r)
    with Cons select_row_mono [OF Cons.prems Some] show ?thesis by simp
  qed
qed

lemma similaritySearch_mono:
  assumes "t1 \<le> t2"
    and "similaritySearch db T v L t1 = Inr ds1"
    and "similaritySearch db T v L t2 = Inr ds2"
  shows "length ds2 \<le> length ds1"
proof -
  from assms(2) have d1: "ds1 = take (nat L) (map snd (sort_key fst
      (List.map_filter (select_row db T v t1) (documents_tbl db))))"
    by (auto simp: similaritySearch_def split: option.splits if_splits)
  from assms(3) have d2: "ds2 = take (nat L) (map snd (sort_key fst
      (List.map_filter (select_row db T v t2) (documents_tbl db))))"
    by (auto simp: similaritySearch_def split: option.splits if_splits)
  show ?thesis
    unfolding d1 d2 using map_filter_select_mono [OF assms(1), of db T v "documents_tbl db"]
    by simp
qed

lemma similaritySearch_same_outcome:
  "(\<exists>e. similaritySearch db T v L t1 = Inl e) \<longleftrightarrow> (\<exists>e. similaritySearch db T v L t2 = Inl e)"
  by (auto simp: similaritySearch_def split: option.splits if_splits)

text \<open>
  Claim C4. For the same provider, store, query, tenant and limit, retrieval with the higher
  of two thresholds returns at most as many chunks as with the lower one; in particular
  threshold 0.9 returns at most as many as threshold 0.5.
\<close>

theorem retrieve_threshold_monotone:
  assumes "t1 \<le> t2"
    and "retrieveRelevantDocuments ai db query T \<lparr>limit = L, threshold = Some t1\<rparr> = Inr c1"
    and "retrieveRelevantDocuments ai db query T \<lparr>limit = L, threshold = Some t2\<rparr> = Inr c2"
  shows "length (documents c2) \<le> length (documents c1) \<and> totalSources c2 \<le> totalSources c1"
proof (cases "embedding_unusable ai query")
  case True
  from retrieve_unusable [OF True, of db T "\<lparr>limit = L, threshold = Some t1\<rparr>"]
    retrieve_unusable [OF True, of db T "\<lparr>limit = L, threshold = Some t2\<rparr>"] assms(2,3)
  show ?thesis by simp
next
  case False
  then obtain qe where qe: "embedContent ai query = Inr (Values qe)" "qe \<noteq> []"
    by (auto simp: embedding_unusable_def split: sum.splits embed_response.splits)
  let ?L = "case L of None \<Rightarrow> 5 | Some l \<Rightarrow> l"
  show ?thesis
  proof (cases "similaritySearch db T qe ?L t1")
    case (Inl e)
    with similaritySearch_same_outcome [of db T qe ?L t1 t2] obtain e' where
      "similaritySearch db T qe ?L t2 = Inl e'" by blast
    with Inl qe assms(2,3) show ?thesis
      by (auto simp: retrieveRelevantDocuments_def try_catch_def bind_e_def)
  next
    case (Inr ds1)
    with similaritySearch_same_outcome [of db T qe ?L t1 t2] obtain ds2 where
      ds2: "similaritySearch db T qe ?L t2 = Inr ds2" by (cases "similaritySearch db T qe ?L t2") auto
    from similaritySearch_mono [OF assms(1) Inr ds2] Inr ds2 qe assms(2,3) show ?thesis
      by (auto simp: retrieveRelevantDocuments_def try_catch_def bind_e_def)
  qed
qed

theorem retrieve_threshold_monotone_witness:
  "\<exists>c1 c2. (0.5::real) \<le> 0.9 \<and>
     retrieveRelevantDocuments ex_ai ex_db ''q'' ''t1'' \<lparr>limit = Some 5, threshold = Some 0.5\<rparr> = Inr c1 \<and>
     retrieveRelevantDocuments ex_ai ex_db ''q'' ''t1'' \<lparr>limit = Some 5, threshold = Some 0.9\<rparr> = Inr c2 \<and>
     map url (documents c1) = [''c'', ''a''] \<and> map url (documents c2) = [''c''] \<and>
     length (documents c2) \<le> length (documents c1) \<and> totalSources c2 \<le> totalSources c1"
proof -
  have le: "(0.5::real) \<le> 0.9" by simp
  obtain c1 where c1: "retrieveRelevantDocuments ex_ai ex_db ''q'' ''t1''
        \<lparr>limit = Some 5, threshold = Some 0.5\<rparr> = Inr c1"
    and u1: "map url (documents c1) = [''c'', ''a'']"
    by (simp add: retrieveRelevantDocuments_def try_catch_def bind_e_def ex_ai_def
      similaritySearch_def ex_db_def ex_doc_def select_row_def document.defs Let_def)
  obtain c2 where c2: "retrieveRelevantDocuments ex_ai ex_db ''q'' ''t1''
        \<lparr>limit = Some 5, threshold = Some 0.9\<rparr> = Inr c2"
    and u2: "map url (documents c2) = [''c'']"
    by (simp add: retrieveRelevantDocuments_def try_catch_def bind_e_def ex_ai_def
      similaritySearch_def ex_db_def ex_doc_def select_row_def document.defs Let_def)
  from retrieve_threshold_monotone [OF le c1 c2] le c1 c2 u1 u2 show ?thesis by simp
qed

section \<open>One crawl per tenant\<close>

lemma findByApiKey_Some:
  "findByApiKey d k = Inr (Some site) \<Longrightarrow> site \<in> set (websites_tbl d) \<and> api_key site = k"
proof -
  assume a: "findByApiKey d k = Inr (Some site)"
  then obtain ws where "filter (\<lambda>w. api_key w = k \<and> is_active w) (websites_tbl d) = site # ws"
    by (auto simp: findByApiKey_def split: option.splits list.splits)
  then have "site \<in> set (filter (\<lambda>w. api_key w = k \<and> is_active w) (websites_tbl d))"
    by simp
  then show ?thesis by simp
qed

text \<open>
  Claim C5. When the tenant that \<open>startCrawl\<close> finds for the request has status
  \<open>crawling\<close>, the request is answered with \<open>success = false\<close> and the message
  ``Website is already being crawled'', and the world is the same afterwards: no callback is
  registered, no crawler and no table is touched. More generally, when every tenant with
  the requested key is being crawled, the answer is \<open>success = false\<close> with some message
  and the world is unchanged (also when the database is unreachable or the tenant is
  inactive).
\<close>

theorem startCrawl_rejects_while_crawling:
  "(\<forall>site. findByApiKey (store wd) websiteId = Inr (Some site) \<and> crawl_status site = Crawling \<longrightarrow>
      startCrawl wd websiteId options =
        Inr (\<lparr>success = False, message = ''Website is already being crawled'', jobId = None\<rparr>, wd)) \<and>
   ((\<forall>site \<in> set (websites_tbl (store wd)). api_key site = websiteId \<longrightarrow> crawl_status site = Crawling) \<longrightarrow>
      (\<exists>msg. startCrawl wd websiteId options =
         Inr (\<lparr>success = False, message = msg, jobId = None\<rparr>, wd)))"
proof (intro conjI allI impI)
  fix site
  assume "findByApiKey (store wd) websiteId = Inr (Some site) \<and> crawl_status site = Crawling"
  then show "startCrawl wd websiteId options =
        Inr (\<lparr>success = False, message = ''Website is already being crawled'', jobId = None\<rparr>, wd)"
    by (simp add: startCrawl_def try_catch_def bind_e_def)
next
  assume all: "\<forall>site \<in> set (websites_tbl (store wd)). api_key site = websiteId \<longrightarrow> crawl_status site = Crawling"
  show "\<exists>msg. startCrawl wd websiteId options =
         Inr (\<lparr>success = False, message = msg, jobId = None\<rparr>, wd)"
  proof (cases "findByApiKey (store wd) websiteId")
    case (Inl e)
    then show ?thesis by (simp add: startCrawl_def try_catch_def bind_e_def)
  next
    case (Inr found)
    show ?thesis
    proof (cases found)
      case None
      with Inr show ?thesis by (simp add: startCrawl_def try_catch_def bind_e_def)
    next
      case (Some site)
      with Inr findByApiKey_Some [of "store wd" websiteId site] all
      have "crawl_status site = Crawling" by blast
      with Inr Some show ?thesis by (simp add: startCrawl_def try_catch_def bind_e_def)
    qed
  qed
qed

theorem startCrawl_rejects_while_crawling_witness:
  "findByApiKey (store ex_world) ''key1'' = Inr (Some (ex_site Crawling)) \<and>
   crawl_status (ex_site Crawling) = Crawling \<and>
   map crawl_status (filter (\<lambda>site. api_key site = ''key1'') (websites_tbl (store ex_world)))
     = [Crawling] \<and>
   startCrawl ex_world ''key1'' None =
     Inr (\<lparr>success = False, message = ''Website is already being crawled'', jobId = None\<rparr>, ex_world)"
proof -
  have f: "findByApiKey (store ex_world) ''key1'' = Inr (Some (ex_site Crawling))"
    by (simp add: findByApiKey_def ex_world_def ex_db_def ex_site_def)
  have c: "crawl_status (ex_site Crawling) = Crawling"
    by (simp add: ex_site_def)
  have a: "\<forall>site \<in> set (websites_tbl (store ex_world)).
      api_key site = ''key1'' \<longrightarrow> crawl_status site = Crawling"
    by (simp add: ex_world_def ex_db_def ex_site_def)
  note inst = startCrawl_rejects_while_crawling [of ex_world "''key1''" None]
  from inst a obtain msg where "startCrawl ex_world ''key1'' None =
      Inr (\<lparr>success = False, message = msg, jobId = None\<rparr>, ex_world)"
    by blast
  moreover from inst f c have "startCrawl ex_world ''key1'' None =
     Inr (\<lparr>success = False, message = ''Website is already being crawled'', jobId = None\<rparr>, ex_world)"
    by blast
  moreover have "map crawl_status
      (filter (\<lambda>site. api_key site = ''key1'') (websites_tbl (store ex_world))) = [Crawling]"
    by (simp add: ex_world_def ex_db_def ex_site_def)
  ultimately show ?thesis using f c by blast
qed

text \<open>For comparison: once the crawl has completed, the same request registers a callback.\<close>

lemma startCrawl_accepts_example:
  "startCrawl ex_world_idle ''key1'' None =
     Inr (\<lparr>success = True, message = ''Crawl started successfully'',
           jobId = Some ''crawl-t1-1700000000000''\<rparr>,
          ex_world_idle\<lparr>timers := [BackgroundCrawl 1000 ''key1'' None]\<rparr>)"
  by (simp add: startCrawl_def try_catch_def bind_e_def findByApiKey_def ex_world_idle_def
        ex_world_def ex_db_def ex_site_def string_of_nat.simps)

section \<open>The cap on visited pages\<close>

lemma visited_page_documents:
  "page_documents w site u p c = Inr c2 \<Longrightarrow> visitedUrls c2 = visitedUrls c"
  using page_documents_Inr [of w site u p c c2] by auto

lemma crawl_visited_bound:
  "length (visitedUrls c) \<le> maxPages opts \<Longrightarrow>
     length (visitedUrls (crawlUrl w site opts u depth c)) \<le> maxPages opts"
  "length (visitedUrls c) \<le> maxPages opts \<Longrightarrow>
     length (visitedUrls (crawlLinks w site opts links depth c)) \<le> maxPages opts"
proof (induction w site opts u depth c and w site opts links depth c
       rule: crawlUrl_crawlLinks.induct)
  case (1 w site opts u depth c)
  show ?case
  proof (cases "depth > maxDepth opts \<or> length (visitedUrls c) \<ge> maxPages opts
         \<or> u \<in> set (visitedUrls c) \<or> \<not> shouldCrawlUrl opts u")
    case True
    with "1.prems" show ?thesis by (auto simp: crawlUrl.simps)
  next
    case False
    let ?c1 = "c\<lparr>visitedUrls := visitedUrls c @ [u]\<rparr>"
    from False have b1: "length (visitedUrls ?c1) \<le> maxPages opts" by simp
    show ?thesis
    proof (cases "goto w u")
      case (Inl e)
      with False b1 show ?thesis by (simp add: crawlUrl.simps)
    next
      case p: (Inr p)
      show ?thesis
      proof (cases "page_documents w site u p ?c1")
        case (Inl e)
        with False b1 p show ?thesis by (simp add: crawlUrl.simps)
      next
        case c2: (Inr c2)
        from visited_page_documents [OF c2] b1
        have b2: "length (visitedUrls c2) \<le> maxPages opts" by simp
        show ?thesis
        proof (cases "depth < maxDepth opts")
          case False
          with \<open>\<not> (depth > maxDepth opts \<or> _)\<close> b2 p c2 show ?thesis
            by (simp add: crawlUrl.simps)
        next
          case d: True
          show ?thesis
          proof (cases "anchors p")
            case (Inl e)
            with False b2 p c2 d show ?thesis by (simp add: crawlUrl.simps)
          next
            case (Inr hrefs)
            from False have g: "\<not> (depth > maxDepth opts \<or> length (visitedUrls c) \<ge> maxPages opts
                \<or> u \<in> set (visitedUrls c))" "\<not> \<not> shouldCrawlUrl opts u" by auto
            from "1.IH" [OF g refl p c2 d Inr b2]
            have "length (visitedUrls (crawlLinks w site opts (internalLinks w site hrefs) (depth + 1) c2))
                \<le> maxPages opts" .
            with False p c2 d Inr show ?thesis by (simp add: crawlUrl.simps)
          qed
        qed
      qed
    qed
  qed
next
  case (2 w site opts depth c)
  then show ?case by simp
next
  case (3 w site opts link links depth c)
  then show ?case by simp
qed

lemma extends_distinct:
  assumes "extends R c r" and "distinct (visitedUrls c)"
  shows "distinct (visitedUrls r)"
proof -
  from assms(1) obtain vnew where "visitedUrls r = visitedUrls c @ vnew" "distinct vnew"
    "set vnew \<inter> set (visitedUrls c) = {}"
    unfolding extends_def by blast
  with assms(2) show ?thesis by auto
qed

lemma extends_prefix:
  assumes "extends R c r"
  shows "\<exists>vnew. visitedUrls r = visitedUrls c @ vnew"
  using assms unfolding extends_def by blast

text \<open>
  Claim C6. With \<open>maxPages = N\<close>, a call of \<open>crawlUrl\<close> that starts with at most \<open>N\<close>
  visited URLs ends with at most \<open>N\<close>; the visited URLs stay distinct and are only ever
  appended to, so the bound holds for every state in between as well. A crawl starts with
  no visited URL, hence never visits more than \<open>N\<close> distinct URLs.
\<close>

theorem crawlUrl_visited_cap:
  "(length (visitedUrls c) \<le> maxPages opts \<longrightarrow>
      length (visitedUrls (crawlUrl w site opts u depth c)) \<le> maxPages opts) \<and>
   (distinct (visitedUrls c) \<longrightarrow> distinct (visitedUrls (crawlUrl w site opts u depth c))) \<and>
   (\<exists>vnew. visitedUrls (crawlUrl w site opts u depth c) = visitedUrls c @ vnew) \<and>
   length (visitedUrls (crawlUrl w site opts (domain site) 0 new_crawler)) \<le> maxPages opts \<and>
   distinct (visitedUrls (crawlUrl w site opts (domain site) 0 new_crawler))"
proof (intro conjI impI)
  assume "length (visitedUrls c) \<le> maxPages opts"
  then show "length (visitedUrls (crawlUrl w site opts u depth c)) \<le> maxPages opts"
    by (rule crawl_visited_bound(1))
next
  assume "distinct (visitedUrls c)"
  with crawl_extends(1) show "distinct (visitedUrls (crawlUrl w site opts u depth c))"
    by (rule extends_distinct)
next
  from crawl_extends(1) show "\<exists>vnew. visitedUrls (crawlUrl w site opts u depth c) = visitedUrls c @ vnew"
    by (rule extends_prefix)
next
  have "length (visitedUrls new_crawler) \<le> maxPages opts" by (simp add: new_crawler_def)
  then show "length (visitedUrls (crawlUrl w site opts (domain site) 0 new_crawler)) \<le> maxPages opts"
    by (rule crawl_visited_bound(1))
next
  have "distinct (visitedUrls new_crawler)" by (simp add: new_crawler_def)
  with crawl_extends(1) show "distinct (visitedUrls (crawlUrl w site opts (domain site) 0 new_crawler))"
    by (rule extends_distinct)
qed

lemma ex_crawl_three:
  "visitedUrls (crawlUrl ex_web (ex_site Crawling) ex_three ex_root 0 new_crawler) =
     [''https://example.com'', ''https://example.com/p1'', ''https://example.com/p2'']"
  by code_simp

theorem crawlUrl_visited_cap_witness:
  "length (visitedUrls new_crawler) \<le> maxPages ex_three \<and> distinct (visitedUrls new_crawler) \<and>
   maxPages ex_three = 3 \<and>
   length (visitedUrls (crawlUrl ex_web (ex_site Crawling) ex_three ex_root 0 new_crawler)) = 3 \<and>
   length (visitedUrls (crawlUrl ex_web (ex_site Crawling) ex_three ex_root 0 new_crawler))
     \<le> maxPages ex_three \<and>
   distinct (visitedUrls (crawlUrl ex_web (ex_site Crawling) ex_three ex_root 0 new_crawler))"
proof -
  have h: "length (visitedUrls new_crawler) \<le> maxPages ex_three" "distinct (visitedUrls new_crawler)"
    by (simp_all add: new_crawler_def)
  have m: "maxPages ex_three = 3" by (simp add: ex_three_def default_options_def)
  from crawlUrl_visited_cap [of new_crawler ex_three ex_web "ex_site Crawling" ex_root 0] h
  have "length (visitedUrls (crawlUrl ex_web (ex_site Crawling) ex_three ex_root 0 new_crawler))
     \<le> maxPages ex_three"
    "distinct (visitedUrls (crawlUrl ex_web (ex_site Crawling) ex_three ex_root 0 new_crawler))"
    by blast+
  with h m show ?thesis by (simp add: ex_crawl_three)
qed

text \<open>The same bound on the \<open>pagesProcessed\<close> count that a whole crawl reports.\<close>

lemma processDocuments_visited:
  "processDocuments ai c db = (n, c', db') \<Longrightarrow> visitedUrls c' = visitedUrls c"
  by (auto simp: processDocuments_def split: if_splits sum.splits prod.splits)

lemma crawl_failed_pages:
  "crawl_failed site e c db = (Inr r, c', db') \<Longrightarrow> pagesProcessed r = length (visitedUrls c)"
  by (auto simp: crawl_failed_def Let_def split: sum.splits)

lemma crawl_pagesProcessed_cap:
  assumes "crawl w ai site opts new_crawler db = (Inr r, c', db')"
  shows "pagesProcessed r \<le> maxPages opts"
proof -
  let ?c1 = "crawlUrl w site opts (domain site) 0 (new_crawler\<lparr>documentsToCreate := []\<rparr>)"
  have n: "new_crawler\<lparr>documentsToCreate := []\<rparr> = new_crawler"
    by (simp add: new_crawler_def)
  have b: "length (visitedUrls ?c1) \<le> maxPages opts"
    unfolding n by (rule crawl_visited_bound(1)) (simp add: new_crawler_def)
  have z: "length (visitedUrls new_crawler) \<le> maxPages opts"
    by (simp add: new_crawler_def)
  from assms show ?thesis
    using b z
    by (auto simp: crawl_def Let_def dest!: crawl_failed_pages processDocuments_visited
          split: sum.splits option.splits prod.splits)
qed

section \<open>Batch embedding\<close>

lemma createEmbedding_total: "createEmbedding ai text = Inr (vector_or_empty ai text)"
  by (cases "embedContent ai text"; cases "projr (embedContent ai text)")
     (auto simp: createEmbedding_def vector_or_empty_def try_catch_def bind_e_def
           split: sum.splits embed_response.splits option.splits)

lemma promise_all_createEmbedding:
  "promise_all (map (createEmbedding ai) ts) = Inr (map (vector_or_empty ai) ts)"
  by (induction ts) (simp_all add: createEmbedding_total)

lemma with_pauses_step:
  "xs \<noteq> [] \<Longrightarrow> with_pauses (sub_batches xs) =
     EmbedBatch (take 5 xs) # (if 5 < length xs then Delay 100 # with_pauses (sub_batches (drop 5 xs)) else [])"
  apply (subst sub_batches.simps)
  apply (cases "drop 5 xs = []")
   apply (simp add: sub_batches.simps)
  apply (subst (2) sub_batches.simps)
  apply (simp)
  apply (subst sub_batches.simps)
  apply simp
  done

lemma batch_loop_eq:
  "batch_loop ai texts i (acc, tr) =
     Inr (acc @ map (vector_or_empty ai) (drop i texts), tr @ with_pauses (sub_batches (drop i texts)))"
proof (induction ai texts i "(acc, tr)" arbitrary: acc tr rule: batch_loop.induct)
  case (1 ai texts i embeddings trace)
  show ?case
  proof (cases "i < length texts")
    case False
    then show ?thesis
      by (simp add: batch_loop.simps sub_batches.simps)
  next
    case True
    let ?batch = "take batchSize (drop i texts)"
    have pa: "promise_all (map (createEmbedding ai) ?batch) = Inr (map (vector_or_empty ai) ?batch)"
      by (rule promise_all_createEmbedding)
    have ne: "drop i texts \<noteq> []" using True by simp
    have step: "batch_loop ai texts i (embeddings, trace) =
       batch_loop ai texts (i + batchSize)
         (embeddings @ map (vector_or_empty ai) ?batch,
          trace @ [EmbedBatch ?batch] @ (if i + batchSize < length texts then [Delay 100] else []))"
      by (subst batch_loop.simps) (simp only: True if_True Let_def pa sum.case)
    have vecs: "map (vector_or_empty ai) ?batch @ map (vector_or_empty ai) (drop (i + batchSize) texts)
        = map (vector_or_empty ai) (drop i texts)"
      by (metis append_take_drop_id drop_drop map_append add.commute)
    have "batch_loop ai texts i (embeddings, trace) =
       Inr ((embeddings @ map (vector_or_empty ai) ?batch) @ map (vector_or_empty ai) (drop (i + batchSize) texts),
            (trace @ [EmbedBatch ?batch] @ (if i + batchSize < length texts then [Delay 100] else []))
              @ with_pauses (sub_batches (drop (i + batchSize) texts)))"
      unfolding step using 1 [OF True refl pa] .
    also have "\<dots> = Inr (embeddings @ map (vector_or_empty ai) (drop i texts),
         trace @ with_pauses (sub_batches (drop i texts)))"
      using vecs ne True
      by (auto simp: with_pauses_step batchSize_def add.commute sub_batches.simps[of "[]"])
    finally show ?thesis .
  qed
qed


lemma concat_sub_batches: "concat (sub_batches xs) = xs"
  by (induction xs rule: sub_batches.induct) (subst sub_batches.simps, simp)

lemma sub_batches_sizes: "b \<in> set (sub_batches xs) \<Longrightarrow> 0 < length b \<and> length b \<le> 5"
  by (induction xs rule: sub_batches.induct) (subst (asm) sub_batches.simps, auto split: if_splits)

lemma sub_batches_full: "b \<in> set (butlast (sub_batches xs)) \<Longrightarrow> length b = 5"
proof (induction xs rule: sub_batches.induct)
  case (1 xs)
  show ?case
  proof (cases "xs = []")
    case True
    with 1 show ?thesis by (simp add: sub_batches.simps)
  next
    case False
    have unf: "sub_batches xs = take 5 xs # sub_batches (drop 5 xs)"
      using False by (subst sub_batches.simps) simp
    show ?thesis
    proof (cases "drop 5 xs = []")
      case True
      with 1(2) unf show ?thesis by (simp add: sub_batches.simps)
    next
      case d: False
      then have "sub_batches (drop 5 xs) \<noteq> []"
        by (subst sub_batches.simps) simp
      with 1(2) unf have "b = take 5 xs \<or> b \<in> set (butlast (sub_batches (drop 5 xs)))"
        by auto
      with 1(1) [OF False] d show ?thesis by auto
    qed
  qed
qed

text \<open>
  Claim C7. \<open>createEmbeddingsBatch\<close> returns (it never throws) one vector per input text,
  at the position of its text: the provider's vector, or the empty vector where the provider
  failed on that text. It sends the texts in consecutive sub-batches of five, the last one
  possibly shorter, and pauses 100 ms between two sub-batches.
\<close>

theorem createEmbeddingsBatch_aligned:
  "\<exists>embeddings trace.
     createEmbeddingsBatch ai texts = Inr (embeddings, trace) \<and>
     length embeddings = length texts \<and>
     (\<forall>i < length texts.
        embeddings ! i = (case embedContent ai (texts ! i) of Inr (Values v) \<Rightarrow> v | _ \<Rightarrow> [])) \<and>
     trace = with_pauses (sub_batches texts) \<and>
     concat (sub_batches texts) = texts \<and>
     (\<forall>b \<in> set (sub_batches texts). 0 < length b \<and> length b \<le> 5) \<and>
     (\<forall>b \<in> set (butlast (sub_batches texts)). length b = 5)"
proof -
  have "createEmbeddingsBatch ai texts =
      Inr (map (vector_or_empty ai) texts, with_pauses (sub_batches texts))"
    by (simp add: createEmbeddingsBatch_def batch_loop_eq)
  moreover have "\<forall>i < length texts. map (vector_or_empty ai) texts ! i =
      (case embedContent ai (texts ! i) of Inr (Values v) \<Rightarrow> v | _ \<Rightarrow> [])"
    by (simp add: vector_or_empty_def)
  ultimately show ?thesis
    using concat_sub_batches [of texts] sub_batches_sizes [of _ texts] sub_batches_full [of _ texts]
    by auto
qed

theorem createEmbeddingsBatch_aligned_witness:
  "\<exists>embeddings trace.
     createEmbeddingsBatch ex_ai [''a'', ''bad'', ''ccc'', ''d'', ''e'', ''ff'', ''g'']
       = Inr (embeddings, trace) \<and>
     length embeddings = 7 \<and> embeddings ! 1 = [] \<and> embeddings ! 2 = [2] \<and>
     trace = [EmbedBatch [''a'', ''bad'', ''ccc'', ''d'', ''e''], Delay 100,
              EmbedBatch [''ff'', ''g'']]"
proof -
  let ?ts = "[''a'', ''bad'', ''ccc'', ''d'', ''e'', ''ff'', ''g'']"
  from createEmbeddingsBatch_aligned [of ex_ai ?ts] obtain embeddings trace where
    r: "createEmbeddingsBatch ex_ai ?ts = Inr (embeddings, trace)" and
    len: "length embeddings = length ?ts" and
    nth: "\<forall>i < length ?ts. embeddings ! i =
        (case embedContent ex_ai (?ts ! i) of Inr (Values v) \<Rightarrow> v | _ \<Rightarrow> [])" and
    tr: "trace = with_pauses (sub_batches ?ts)"
    by blast
  from nth have "embeddings ! 1 = (case embedContent ex_ai (?ts ! 1) of Inr (Values v) \<Rightarrow> v | _ \<Rightarrow> [])"
    by simp
  then have n1: "embeddings ! 1 = []" by (simp add: ex_ai_def)
  from nth have "embeddings ! 2 = (case embedContent ex_ai (?ts ! 2) of Inr (Values v) \<Rightarrow> v | _ \<Rightarrow> [])"
    by simp
  then have n2: "embeddings ! 2 = [2]" by (simp add: ex_ai_def)
  have "with_pauses (sub_batches ?ts) = [EmbedBatch [''a'', ''bad'', ''ccc'', ''d'', ''e''], Delay 100,
              EmbedBatch [''ff'', ''g'']]"
    by (simp add: sub_batches.simps)
  with r len n1 n2 tr show ?thesis by simp
qed

section \<open>The minimum length of a page\<close>

lemma extends_filter:
  assumes "extends R c2 r" and "u \<in> set (visitedUrls c2)"
  shows "filter (\<lambda>d. url d = u) (documentsToCreate r)
       = filter (\<lambda>d. url d = u) (documentsToCreate c2)"
proof -
  from assms(1) obtain vnew dnew where 1: "set vnew \<inter> set (visitedUrls c2) = {}"
    "documentsToCreate r = documentsToCreate c2 @ dnew" "url ` set dnew \<subseteq> set vnew"
    unfolding extends_def by blast
  from 1(1,3) assms(2) have "\<forall>d \<in> set dnew. url d \<noteq> u" by auto
  then have "filter (\<lambda>d. url d = u) dnew = []" by (simp add: filter_empty_conv)
  with 1(2) show ?thesis by simp
qed

lemma crawlUrl_fetched:
  assumes "\<not> (depth > maxDepth opts \<or> length (visitedUrls c) \<ge> maxPages opts
             \<or> u \<in> set (visitedUrls c))"
    and "shouldCrawlUrl opts u"
    and "goto w u = Inr p"
  shows "crawlUrl w site opts u depth c =
     (case page_documents w site u p (c\<lparr>visitedUrls := visitedUrls c @ [u]\<rparr>) of
        Inl e \<Rightarrow> record_error u e (c\<lparr>visitedUrls := visitedUrls c @ [u]\<rparr>)
      | Inr c2 \<Rightarrow>
          if depth < maxDepth opts
          then (case anchors p of
                  Inl e \<Rightarrow> record_error u e c2
                | Inr hrefs \<Rightarrow>
                    crawlLinks w site opts (internalLinks w site hrefs) (depth + 1) c2)
          else c2)"
  using assms by (subst crawlUrl.simps) (simp add: Let_def)

lemma crawlUrl_fetched_docs:
  assumes "\<not> (depth > maxDepth opts \<or> length (visitedUrls c) \<ge> maxPages opts
             \<or> u \<in> set (visitedUrls c))"
    and "shouldCrawlUrl opts u"
    and "goto w u = Inr p"
    and "page_documents w site u p (c\<lparr>visitedUrls := visitedUrls c @ [u]\<rparr>) = Inr c2"
  shows "filter (\<lambda>d. url d = u) (documentsToCreate (crawlUrl w site opts u depth c))
       = filter (\<lambda>d. url d = u) (documentsToCreate c2)"
proof -
  from visited_page_documents [OF assms(4)] have v: "u \<in> set (visitedUrls c2)" by simp
  show ?thesis
  proof (cases "depth < maxDepth opts")
    case False
    with crawlUrl_fetched [OF assms(1-3), of site] assms(4) show ?thesis by simp
  next
    case True
    show ?thesis
    proof (cases "anchors p")
      case (Inl e)
      with True crawlUrl_fetched [OF assms(1-3), of site] assms(4) show ?thesis by simp
    next
      case (Inr hrefs)
      with True crawlUrl_fetched [OF assms(1-3), of site] assms(4)
      have "crawlUrl w site opts u depth c =
          crawlLinks w site opts (internalLinks w site hrefs) (depth + 1) c2" by simp
      with extends_filter [OF crawl_extends(2) v] show ?thesis by simp
    qed
  qed
qed

text \<open>
  Claim C8, as the code has it. A page fetched during a crawl whose cleaned text has 100
  characters or fewer is discarded: the crawl adds no pending document for its URL, so
  nothing of it is embedded. A page whose cleaned text has more than 100 characters is
  handed to the splitter, and every chunk the splitter returns becomes one pending document
  for the page's URL, in order, not yet embedded.
\<close>

theorem page_text_threshold:
  assumes "\<not> (depth > maxDepth opts \<or> length (visitedUrls c) \<ge> maxPages opts
             \<or> u \<in> set (visitedUrls c))"
    and "shouldCrawlUrl opts u"
    and "goto w u = Inr p"
  shows "(length (clean_text (extract_text p)) \<le> 100 \<longrightarrow>
            page_documents w site u p c = Inr c \<and>
            filter (\<lambda>d. url d = u) (documentsToCreate (crawlUrl w site opts u depth c))
              = filter (\<lambda>d. url d = u) (documentsToCreate c)) \<and>
         (\<forall>chunks. length (clean_text (extract_text p)) > 100 \<and>
              splitText w (clean_text (extract_text p)) = Inr chunks \<longrightarrow>
            (\<exists>dnew. filter (\<lambda>d. url d = u) (documentsToCreate (crawlUrl w site opts u depth c))
                 = filter (\<lambda>d. url d = u) (documentsToCreate c) @ dnew \<and>
               map content dnew = chunks \<and>
               (\<forall>d \<in> set dnew. url d = u \<and> website_id d = ws_id site \<and> embedding d = None)))"
proof (intro conjI allI impI)
  let ?c1 = "c\<lparr>visitedUrls := visitedUrls c @ [u]\<rparr>"
  assume short: "length (clean_text (extract_text p)) \<le> 100"
  then have n: "\<not> length (clean_text (extract_text p)) > 100" by simp
  from page_documents_short [OF n] show "page_documents w site u p c = Inr c" .
  from page_documents_short [OF n] have "page_documents w site u p ?c1 = Inr ?c1" .
  from crawlUrl_fetched_docs [OF assms this]
  show "filter (\<lambda>d. url d = u) (documentsToCreate (crawlUrl w site opts u depth c))
       = filter (\<lambda>d. url d = u) (documentsToCreate c)" by simp
next
  let ?c1 = "c\<lparr>visitedUrls := visitedUrls c @ [u]\<rparr>"
  fix chunks
  assume a: "length (clean_text (extract_text p)) > 100 \<and>
              splitText w (clean_text (extract_text p)) = Inr chunks"
  let ?dnew = "map (pending_document w site u (page_title p) (length chunks)) (enumerate 0 chunks)"
  from a page_documents_long [of p w site u ?c1]
  have pd: "page_documents w site u p ?c1 =
      Inr (?c1\<lparr>documentsToCreate := documentsToCreate ?c1 @ ?dnew\<rparr>)"
    by (simp del: enumerate_eq_zip)
  have all: "filter (\<lambda>d. url d = u) ?dnew = ?dnew"
    by (simp add: filter_id_conv del: enumerate_eq_zip)
  from crawlUrl_fetched_docs [OF assms pd] all
  have "filter (\<lambda>d. url d = u) (documentsToCreate (crawlUrl w site opts u depth c))
       = filter (\<lambda>d. url d = u) (documentsToCreate c) @ ?dnew"
    by (simp del: enumerate_eq_zip)
  moreover have "map content ?dnew = chunks" by (rule contents_pending)
  moreover have "\<forall>d \<in> set ?dnew. url d = u \<and> website_id d = ws_id site \<and> embedding d = None"
    by (auto simp del: enumerate_eq_zip)
  ultimately show "\<exists>dnew. filter (\<lambda>d. url d = u) (documentsToCreate (crawlUrl w site opts u depth c))
                 = filter (\<lambda>d. url d = u) (documentsToCreate c) @ dnew \<and>
               map content dnew = chunks \<and>
               (\<forall>d \<in> set dnew. url d = u \<and> website_id d = ws_id site \<and> embedding d = None)"
    by blast
qed

lemma ex_should_root: "shouldCrawlUrl default_options ex_root"
  by code_simp

text \<open>
  The claim as stated has a page of exactly 100 characters split and indexed. In the
  example crawl the page \<open>/p1\<close> is fetched, its cleaned text has 100 characters, the
  splitter would return one chunk for it, and the only pending document of the crawl is
  the root page's.
\<close>

theorem page_text_threshold_counterexample:
  "goto ex_web ''https://example.com/p1'' = Inr (ex_page 100 []) \<and>
   length (clean_text (extract_text (ex_page 100 []))) = 100 \<and>
   splitText ex_web (clean_text (extract_text (ex_page 100 []))) = Inr [replicate 100 (CHR ''a'')] \<and>
   page_documents ex_web (ex_site Crawling) ''https://example.com/p1'' (ex_page 100 []) new_crawler
     = Inr new_crawler \<and>
   ''https://example.com/p1'' \<in> set (visitedUrls ex_crawled) \<and>
   map url (documentsToCreate ex_crawled) = [''https://example.com'']"
proof -
  have "goto ex_web ''https://example.com/p1'' = Inr (ex_page 100 [])"
    by (simp add: ex_web_def ex_root_def)
  moreover have "splitText ex_web (clean_text (extract_text (ex_page 100 []))) = Inr [replicate 100 (CHR ''a'')]"
    by code_simp
  moreover have "page_documents ex_web (ex_site Crawling) ''https://example.com/p1'' (ex_page 100 []) new_crawler
     = Inr new_crawler"
    by (simp add: page_documents_def ex_clean_100)
  moreover have "''https://example.com/p1'' \<in> set (visitedUrls ex_crawled)"
    "map url (documentsToCreate ex_crawled) = [''https://example.com'']"
    by (simp_all add: ex_crawl_result)
  ultimately show ?thesis using ex_clean_100 by blast
qed

lemma ex_should_p1: "shouldCrawlUrl default_options ''https://example.com/p1''"
  by code_simp

theorem page_text_threshold_witness:
  "\<not> (0 > maxDepth default_options \<or> length (visitedUrls new_crawler) \<ge> maxPages default_options
       \<or> ex_root \<in> set (visitedUrls new_crawler)) \<and>
   shouldCrawlUrl default_options ex_root \<and>
   goto ex_web ex_root = Inr (ex_page 101 ex_hrefs) \<and>
   length (clean_text (extract_text (ex_page 101 ex_hrefs))) > 100 \<and>
   splitText ex_web (clean_text (extract_text (ex_page 101 ex_hrefs))) = Inr [replicate 101 (CHR ''a'')] \<and>
   map content (filter (\<lambda>d. url d = ex_root) (documentsToCreate ex_crawled)) = [replicate 101 (CHR ''a'')] \<and>
   shouldCrawlUrl default_options ''https://example.com/p1'' \<and>
   goto ex_web ''https://example.com/p1'' = Inr (ex_page 100 []) \<and>
   length (clean_text (extract_text (ex_page 100 []))) \<le> 100 \<and>
   filter (\<lambda>d. url d = ''https://example.com/p1'')
     (documentsToCreate
        (crawlUrl ex_web (ex_site Crawling) default_options ''https://example.com/p1'' 0 new_crawler))
     = []"
proof -
  have g: "\<not> (0 > maxDepth default_options \<or> length (visitedUrls new_crawler) \<ge> maxPages default_options
       \<or> ex_root \<in> set (visitedUrls new_crawler))"
    by (simp add: default_options_def new_crawler_def)
  have f: "goto ex_web ex_root = Inr (ex_page 101 ex_hrefs)"
    by (simp add: ex_web_def)
  have l: "length (clean_text (extract_text (ex_page 101 ex_hrefs))) > 100"
    by (simp add: ex_clean_101)
  have sp: "splitText ex_web (clean_text (extract_text (ex_page 101 ex_hrefs))) = Inr [replicate 101 (CHR ''a'')]"
    by code_simp
  let ?text = "clean_text (extract_text (ex_page 101 ex_hrefs))"
  let ?B = "\<lambda>chunks. \<exists>dnew. filter (\<lambda>d. url d = ex_root)
        (documentsToCreate (crawlUrl ex_web (ex_site Crawling) default_options ex_root 0 new_crawler))
      = filter (\<lambda>d. url d = ex_root) (documentsToCreate new_crawler) @ dnew \<and>
      map content dnew = chunks \<and>
      (\<forall>d \<in> set dnew. url d = ex_root \<and> website_id d = ws_id (ex_site Crawling) \<and> embedding d = None)"
  from page_text_threshold [OF g ex_should_root f, of "ex_site Crawling"]
  have "\<forall>chunks. length ?text > 100 \<and> splitText ex_web ?text = Inr chunks \<longrightarrow> ?B chunks"
    by (rule conjunct2)
  then have "length ?text > 100 \<and> splitText ex_web ?text = Inr [replicate 101 (CHR ''a'')]
      \<longrightarrow> ?B [replicate 101 (CHR ''a'')]"
    by (rule spec)
  moreover from l sp have "length ?text > 100 \<and> splitText ex_web ?text = Inr [replicate 101 (CHR ''a'')]"
    by (rule conjI)
  ultimately have "?B [replicate 101 (CHR ''a'')]" by (rule mp)
  then obtain dnew where "filter (\<lambda>d. url d = ex_root) (documentsToCreate ex_crawled)
      = filter (\<lambda>d. url d = ex_root) (documentsToCreate new_crawler) @ dnew"
    "map content dnew = [replicate 101 (CHR ''a'')]"
    unfolding ex_crawled_def by (elim exE conjE)
  then have long: "map content (filter (\<lambda>d. url d = ex_root) (documentsToCreate ex_crawled)) = [replicate 101 (CHR ''a'')]"
    by (simp add: new_crawler_def)
  have g1: "\<not> (0 > maxDepth default_options \<or> length (visitedUrls new_crawler) \<ge> maxPages default_options
       \<or> ''https://example.com/p1'' \<in> set (visitedUrls new_crawler))"
    by (simp add: default_options_def new_crawler_def)
  have f1: "goto ex_web ''https://example.com/p1'' = Inr (ex_page 100 [])"
    by (simp add: ex_web_def ex_root_def)
  have l1: "length (clean_text (extract_text (ex_page 100 []))) \<le> 100"
    by (simp add: ex_clean_100)
  from page_text_threshold [OF g1 ex_should_p1 f1, of "ex_site Crawling"] l1
  have "filter (\<lambda>d. url d = ''https://example.com/p1'')
     (documentsToCreate
        (crawlUrl ex_web (ex_site Crawling) default_options ''https://example.com/p1'' 0 new_crawler))
     = filter (\<lambda>d. url d = ''https://example.com/p1'') (documentsToCreate new_crawler)"
    by blast
  then have short: "filter (\<lambda>d. url d = ''https://example.com/p1'')
     (documentsToCreate
        (crawlUrl ex_web (ex_site Crawling) default_options ''https://example.com/p1'' 0 new_crawler))
     = []"
    by (simp add: new_crawler_def)
  from g ex_should_root f l sp long ex_should_p1 f1 l1 short show ?thesis by blast
qed

section \<open>The shape of a chat response\<close>







section \<open>Ten links per page\<close>

lemma followed_links_le: "length (followed_links w site u) \<le> 10"
  by (simp add: followed_links_def internalLinks_def split: sum.splits)

text \<open>
  Claim C10. From a page the crawler follows at most ten links: the first ten anchors of
  the page that are neither empty nor \<open>mailto:\<close> nor \<open>tel:\<close> and whose host is the
  tenant's. Every URL a call of \<open>crawlUrl\<close> visits was visited before the call or is
  reached from the call's URL along followed links only; a same-host link beyond the tenth
  of a page is not visited through that page, whatever \<open>maxPages\<close> and \<open>maxDepth\<close> allow.
\<close>

theorem crawl_follows_first_ten:
  "length (followed_links w site u) \<le> 10 \<and>
   (\<forall>p hrefs. goto w u = Inr p \<and> anchors p = Inr hrefs \<longrightarrow>
      followed_links w site u =
        take 10 (filter (isInternalLink w site)
          (filter (\<lambda>href. href \<noteq> [] \<and> \<not> startsWith href ''mailto:'' \<and> \<not> startsWith href ''tel:'')
             hrefs))) \<and>
   (\<forall>x \<in> set (visitedUrls (crawlUrl w site opts u depth c)).
      x \<in> set (visitedUrls c) \<or> reach w site u x)"
proof (intro conjI allI impI ballI)
  show "length (followed_links w site u) \<le> 10" by (rule followed_links_le)
next
  fix p hrefs
  assume "goto w u = Inr p \<and> anchors p = Inr hrefs"
  then show "followed_links w site u =
        take 10 (filter (isInternalLink w site)
          (filter (\<lambda>href. href \<noteq> [] \<and> \<not> startsWith href ''mailto:'' \<and> \<not> startsWith href ''tel:'')
             hrefs))"
    by (simp add: followed_links_def internalLinks_def)
next
  fix x
  assume x: "x \<in> set (visitedUrls (crawlUrl w site opts u depth c))"
  from crawl_extends(1) [of w site u c opts depth] obtain vnew where
    "visitedUrls (crawlUrl w site opts u depth c) = visitedUrls c @ vnew"
    "set vnew \<subseteq> {x. reach w site u x}"
    unfolding extends_def by blast
  with x show "x \<in> set (visitedUrls c) \<or> reach w site u x" by auto
qed

theorem crawl_follows_first_ten_witness:
  "goto ex_web ex_root = Inr (ex_page 101 ex_hrefs) \<and>
   anchors (ex_page 101 ex_hrefs) = Inr ex_hrefs \<and>
   isInternalLink ex_web (ex_site Crawling) ''https://example.com/p11'' \<and>
   ''https://example.com/p11'' \<in> set ex_hrefs \<and>
   ''https://example.com/p11'' \<notin> set (followed_links ex_web (ex_site Crawling) ex_root) \<and>
   ''https://example.com/p10'' \<in> set (visitedUrls ex_crawled) \<and>
   reach ex_web (ex_site Crawling) ex_root ''https://example.com/p10'' \<and>
   ''https://example.com/p11'' \<notin> set (visitedUrls ex_crawled) \<and>
   length (visitedUrls ex_crawled) < maxPages default_options"
proof -
  note inst = crawl_follows_first_ten [of ex_web "ex_site Crawling" ex_root default_options 0 new_crawler]
  have g: "goto ex_web ex_root = Inr (ex_page 101 ex_hrefs) \<and>
    anchors (ex_page 101 ex_hrefs) = Inr ex_hrefs"
    by (simp add: ex_web_def ex_page_def)
  have i: "isInternalLink ex_web (ex_site Crawling) ''https://example.com/p11''"
    by (simp add: isInternalLink_def ex_web_def ex_site_def startsWith_def)
  have h: "''https://example.com/p11'' \<in> set ex_hrefs" by (simp add: ex_hrefs_def)
  from inst g have "followed_links ex_web (ex_site Crawling) ex_root =
      take 10 (filter (isInternalLink ex_web (ex_site Crawling))
        (filter (\<lambda>href. href \<noteq> [] \<and> \<not> startsWith href ''mailto:'' \<and> \<not> startsWith href ''tel:'')
           ex_hrefs))"
    by blast
  then have "followed_links ex_web (ex_site Crawling) ex_root =
      internalLinks ex_web (ex_site Crawling) ex_hrefs"
    by (simp add: internalLinks_def)
  then have nf: "''https://example.com/p11'' \<notin> set (followed_links ex_web (ex_site Crawling) ex_root)"
    by (simp add: ex_internal)
  have v: "''https://example.com/p10'' \<in> set (visitedUrls ex_crawled)"
    by (simp add: ex_crawl_result)
  with inst have "''https://example.com/p10'' \<in> set (visitedUrls new_crawler)
      \<or> reach ex_web (ex_site Crawling) ex_root ''https://example.com/p10''"
    unfolding ex_crawled_def by blast
  then have r: "reach ex_web (ex_site Crawling) ex_root ''https://example.com/p10''"
    by (simp add: new_crawler_def)
  have nv: "''https://example.com/p11'' \<notin> set (visitedUrls ex_crawled)"
    by (simp add: ex_crawl_result)
  have l: "length (visitedUrls ex_crawled) < maxPages default_options"
    by (simp add: ex_crawl_result default_options_def)
  from g i h nf v r nv l show ?thesis by blast
qed

end
